theory Spec2Isabelle
  imports Complex_Main "HOL-Library.Word" "HOL-Library.Stream"
begin

section \<open>Numbers of the program\<close>

text \<open>
  The program computes with Go's \<^verbatim>\<open>float64\<close> and \<^verbatim>\<open>float32\<close>. A value is a finite
  number or one of the IEEE 754 specials, which the program can hold: a division by zero
  in \<^verbatim>\<open>UpdateCanvas\<close> yields an infinity (Go does not panic on it), and
  \<^verbatim>\<open>strconv.ParseFloat\<close> accepts the texts \<^verbatim>\<open>Inf\<close> and \<^verbatim>\<open>NaN\<close>. The sign of zero is not
  kept: a zero counts as \<open>+0\<close>, so a positive number divided by a negative zero gives
  \<open>+Inf\<close> here and \<open>-Inf\<close> in Go.
\<close>

datatype float = Fin real | PInf | NInf | NaN

type_synonym float64 = float
type_synonym float32 = float

text \<open>
  Every operation on finite values rounds its exact result to the format of its type.
  The rounding is a parameter of each operation, a function from the exact result to the
  value stored; the rules for the specials do not depend on it.
\<close>

fun fneg :: "float \<Rightarrow> float" where
  "fneg (Fin a) = Fin (- a)"
| "fneg PInf = NInf"
| "fneg NInf = PInf"
| "fneg NaN = NaN"

fun fadd :: "(real \<Rightarrow> float) \<Rightarrow> float \<Rightarrow> float \<Rightarrow> float" where
  "fadd rnd (Fin a) (Fin b) = rnd (a + b)"
| "fadd rnd NaN _ = NaN"
| "fadd rnd _ NaN = NaN"
| "fadd rnd PInf NInf = NaN"
| "fadd rnd NInf PInf = NaN"
| "fadd rnd PInf _ = PInf"
| "fadd rnd _ PInf = PInf"
| "fadd rnd NInf _ = NInf"
| "fadd rnd _ NInf = NInf"

definition fsub :: "(real \<Rightarrow> float) \<Rightarrow> float \<Rightarrow> float \<Rightarrow> float" where
  "fsub rnd a b = fadd rnd a (fneg b)"

fun fmul :: "(real \<Rightarrow> float) \<Rightarrow> float \<Rightarrow> float \<Rightarrow> float" where
  "fmul rnd (Fin a) (Fin b) = rnd (a * b)"
| "fmul rnd NaN _ = NaN"
| "fmul rnd _ NaN = NaN"
| "fmul rnd (Fin a) PInf = (if a = 0 then NaN else if 0 < a then PInf else NInf)"
| "fmul rnd (Fin a) NInf = (if a = 0 then NaN else if 0 < a then NInf else PInf)"
| "fmul rnd PInf (Fin b) = (if b = 0 then NaN else if 0 < b then PInf else NInf)"
| "fmul rnd NInf (Fin b) = (if b = 0 then NaN else if 0 < b then NInf else PInf)"
| "fmul rnd PInf PInf = PInf"
| "fmul rnd PInf NInf = NInf"
| "fmul rnd NInf PInf = NInf"
| "fmul rnd NInf NInf = PInf"

fun fdiv :: "(real \<Rightarrow> float) \<Rightarrow> float \<Rightarrow> float \<Rightarrow> float" where
  "fdiv rnd (Fin a) (Fin b) =
     (if b = 0 then (if a = 0 then NaN else if 0 < a then PInf else NInf)
      else rnd (a / b))"
| "fdiv rnd NaN _ = NaN"
| "fdiv rnd _ NaN = NaN"
| "fdiv rnd (Fin a) PInf = Fin 0"
| "fdiv rnd (Fin a) NInf = Fin 0"
| "fdiv rnd PInf (Fin b) = (if 0 \<le> b then PInf else NInf)"
| "fdiv rnd NInf (Fin b) = (if 0 \<le> b then NInf else PInf)"
| "fdiv rnd PInf PInf = NaN"
| "fdiv rnd PInf NInf = NaN"
| "fdiv rnd NInf PInf = NaN"
| "fdiv rnd NInf NInf = NaN"

text \<open>A conversion between the formats, as \<^verbatim>\<open>float32(x)\<close>, rounds a finite value.\<close>

fun convert :: "(real \<Rightarrow> float) \<Rightarrow> float \<Rightarrow> float" where
  "convert rnd (Fin a) = rnd a"
| "convert rnd PInf = PInf"
| "convert rnd NInf = NInf"
| "convert rnd NaN = NaN"

text \<open>The two roundings of a run: to \<^verbatim>\<open>float64\<close> and to \<^verbatim>\<open>float32\<close>.\<close>

record rounding =
  round64 :: "real \<Rightarrow> float"
  round32 :: "real \<Rightarrow> float"

text \<open>
  IEEE 754 rounding to nearest, ties to even, for a binary format with \<open>p\<close> bits of
  precision and exponents from \<open>emin\<close> to \<open>emax\<close>. With \<open>e = binade x\<close>, the exponent for
  which \<open>2 ^ e \<le> |x| < 2 ^ (e + 1)\<close>, the result is the multiple of the quantum
  \<open>2 ^ (e - p + 1)\<close> nearest to \<open>x\<close> (of \<open>2 ^ (emin - p + 1)\<close> below the normal range), and
  a result beyond the largest finite number is an infinity. This is what Go computes where it rounds
  after each operation; Go may also fuse \<^verbatim>\<open>x*y + z\<close> into one rounding on some machines,
  which is not modelled.
\<close>

definition binade :: "real \<Rightarrow> int" where
  "binade x = \<lfloor>log 2 \<bar>x\<bar>\<rfloor>"

definition rne :: "real \<Rightarrow> int" where
  "rne x =
     (let f = \<lfloor>x\<rfloor>; d = x - of_int f
      in if d < 1 / 2 then f else if 1 / 2 < d then f + 1 else if even f then f else f + 1)"

definition quantum :: "nat \<Rightarrow> int \<Rightarrow> real \<Rightarrow> real" where
  "quantum p emin x = 2 powi (max (binade x) emin - int p + 1)"

definition round_real :: "nat \<Rightarrow> int \<Rightarrow> real \<Rightarrow> real" where
  "round_real p emin x = of_int (rne (x / quantum p emin x)) * quantum p emin x"

definition round_to :: "nat \<Rightarrow> int \<Rightarrow> int \<Rightarrow> real \<Rightarrow> float" where
  "round_to p emin emax x =
     (if x = 0 then Fin 0
      else if 2 powi (emax + 1) \<le> \<bar>round_real p emin x\<bar> then (if 0 < x then PInf else NInf)
      else Fin (round_real p emin x))"

definition ieee :: rounding where
  "ieee = \<lparr>round64 = round_to 53 (- 1022) 1023, round32 = round_to 24 (- 126) 127\<rparr>"

text \<open>A finite number is a \<^verbatim>\<open>float64\<close> value when the rounding to that format keeps it.\<close>

definition is_float64 :: "real \<Rightarrow> bool" where
  "is_float64 a \<longleftrightarrow> round_to 53 (- 1022) 1023 a = Fin a"

text \<open>A finite number is a \<^verbatim>\<open>float32\<close> value when the rounding to that format keeps it.\<close>

definition is_float32 :: "real \<Rightarrow> bool" where
  "is_float32 a \<longleftrightarrow> round_to 24 (- 126) 127 a = Fin a"

text \<open>
  The order of the values, as Go's \<^verbatim>\<open><=\<close> has it: the finite numbers in their order,
  \<open>-Inf\<close> below and \<open>+Inf\<close> above them, and NaN comparable with nothing, not even with
  itself. A rounding is monotone when it keeps this order.
\<close>

fun fle :: "float \<Rightarrow> float \<Rightarrow> bool" where
  "fle (Fin a) (Fin b) = (a \<le> b)"
| "fle NaN _ = False"
| "fle _ NaN = False"
| "fle NInf _ = True"
| "fle _ PInf = True"
| "fle _ _ = False"

definition monotone_rounding :: "(real \<Rightarrow> float) \<Rightarrow> bool" where
  "monotone_rounding rnd \<longleftrightarrow> (\<forall>x y. x \<le> y \<longrightarrow> fle (rnd x) (rnd y))"

section \<open>Data of the program\<close>

text \<open>\<^verbatim>\<open>type Point struct { X, Y float64 }\<close>\<close>

record Point =
  X :: float64
  Y :: float64

text \<open>
  \<^verbatim>\<open>color.Color\<close>: the program uses \<^verbatim>\<open>color.RGBA\<close> values with four bytes and the
  constant \<^verbatim>\<open>color.Transparent\<close>.
\<close>

datatype Color = RGBA "8 word" "8 word" "8 word" "8 word" | Transparent

record GUIConfig =
  NumPoints :: int
  MinX :: float64
  MaxX :: float64
  MinY :: float64
  MaxY :: float64
  CanvasWidth :: float32
  CanvasHeight :: float32
  PointSize :: float32
  PointColor :: Color

text \<open>
  The canvas objects the program creates: a rectangle with fill colour, stroke colour
  (nil unless set), stroke width and size, and a circle with fill colour, position
  (\<^verbatim>\<open>Move\<close>) and size (\<^verbatim>\<open>Resize\<close>).
\<close>

datatype CanvasObject =
  Rectangle Color "Color option" float32 "float32 \<times> float32"
| Circle Color "float32 \<times> float32" "float32 \<times> float32"

text \<open>
  \<^verbatim>\<open>PointVisualizer\<close>. The field \<^verbatim>\<open>canvas\<close> is a pointer to a container, nil until
  \<^verbatim>\<open>Run\<close> creates it: \<open>None\<close> is nil, \<open>Some objs\<close> a container whose \<^verbatim>\<open>Objects\<close> are
  \<open>objs\<close>. The fields \<^verbatim>\<open>app\<close> and \<^verbatim>\<open>window\<close> belong to the toolkit and are left out.
\<close>

record PointVisualizer =
  config :: GUIConfig
  points :: "Point list"
  canvas :: "CanvasObject list option"
  pointObjects :: "CanvasObject list"

text \<open>
  The process-wide source of \<^verbatim>\<open>math/rand\<close>. Once seeded it is deterministic, so its
  state is the sequence of values that \<^verbatim>\<open>rand.Float64()\<close> will return, each a finite
  number; a call returns the head and moves on.
\<close>

type_synonym Rand = "real stream"

definition Float64 :: "Rand \<Rightarrow> float64 \<times> Rand" where
  "Float64 s = (Fin (shd s), stl s)"

text \<open>
  A run-time panic of Go ends the call; the state it leaves behind is kept with it.
  \<open>OutOfMemory\<close> is the fatal error \<^verbatim>\<open>out of memory\<close> of the runtime, which ends the process
  when the allocator cannot provide a block; it is kept as an outcome like a panic.
\<close>

datatype panic = MakesliceLenOutOfRange | NilPointerDereference | OutOfMemory

type_synonym 'a outcome = "(panic \<times> 'a) + 'a"

section \<open>Operations of the program\<close>

text \<open>
  \<^verbatim>\<open>NewPointVisualizer\<close> (lines 48 to 68). \<^verbatim>\<open>rand.Seed\<close> belongs to the library and the
  clock to the system: both are parameters.
\<close>

definition NewPointVisualizer :: "(int \<Rightarrow> Rand) \<Rightarrow> int \<Rightarrow> PointVisualizer \<times> Rand" where
  "NewPointVisualizer Seed now =
     (\<lparr>config = \<lparr>NumPoints = 30, MinX = Fin 0, MaxX = Fin 100, MinY = Fin 0, MaxY = Fin 100,
                 CanvasWidth = Fin 600, CanvasHeight = Fin 400, PointSize = Fin 6,
                 PointColor = RGBA 70 130 255 255\<rparr>,
       points = [], canvas = None, pointObjects = []\<rparr>,
      Seed now)"

text \<open>
  The loop of \<^verbatim>\<open>GeneratePoints\<close> (lines 74 to 78), from index \<open>i\<close> on. The index stays
  below the length of the slice, so the assignment \<^verbatim>\<open>pv.points[i] = ...\<close> is in range.
\<close>

function GeneratePoints_loop ::
  "rounding \<Rightarrow> int \<Rightarrow> PointVisualizer \<Rightarrow> Rand \<Rightarrow> PointVisualizer \<times> Rand" where
  "GeneratePoints_loop rd i pv s =
     (if i < NumPoints (config pv) then
        (let r1 = fst (Float64 s); s1 = snd (Float64 s);
             x = fadd (round64 rd) (MinX (config pv))
                   (fmul (round64 rd) r1
                      (fsub (round64 rd) (MaxX (config pv)) (MinX (config pv))));
             r2 = fst (Float64 s1); s2 = snd (Float64 s1);
             y = fadd (round64 rd) (MinY (config pv))
                   (fmul (round64 rd) r2
                      (fsub (round64 rd) (MaxY (config pv)) (MinY (config pv))))
         in GeneratePoints_loop rd (i + 1)
              (pv\<lparr>points := (points pv)[nat i := \<lparr>X = x, Y = y\<rparr>]\<rparr>) s2)
      else (pv, s))"
  by pat_completeness auto
termination
  by (relation "measure (\<lambda>(rd, i, pv, s). nat (NumPoints (config pv) - i))") auto

text \<open>
  The runtime behind \<^verbatim>\<open>make([]Point, n)\<close>, its function \<^verbatim>\<open>makeslice\<close>. It panics with
  \<^verbatim>\<open>makeslice: len out of range\<close> when \<open>n\<close> is negative and when the \<open>n\<close> elements of 16 bytes
  (a \<^verbatim>\<open>Point\<close> is two \<^verbatim>\<open>float64\<close>) need more than \<^verbatim>\<open>maxAlloc\<close> bytes. Otherwise it asks the
  allocator, \<^verbatim>\<open>mallocgc\<close>, for the block: a block of size 0 is always returned, and when
  the allocator cannot provide a larger one the process ends with \<^verbatim>\<open>out of memory\<close>.
  \<^verbatim>\<open>maxAlloc\<close> is a constant of the platform and the allocator has the memory of the run:
  both are parameters, \<open>mallocgc rt size\<close> saying whether a block of \<open>size\<close> bytes is
  provided. The result \<open>None\<close> stands for a block returned.
\<close>

record Runtime =
  maxAlloc :: nat
  mallocgc :: "int \<Rightarrow> bool"

definition makeslice :: "Runtime \<Rightarrow> int \<Rightarrow> panic option" where
  "makeslice rt n =
     (if n < 0 \<or> int (maxAlloc rt) < 16 * n then Some MakesliceLenOutOfRange
      else if 0 < n \<and> \<not> mallocgc rt (16 * n) then Some OutOfMemory
      else None)"

text \<open>
  \<^verbatim>\<open>GeneratePoints\<close> (lines 71 to 79). When \<^verbatim>\<open>make([]Point, n)\<close> fails, nothing has been
  written; otherwise it gives \<open>n\<close> zero points, which the loop overwrites. \<^verbatim>\<open>NumPoints\<close>
  is an \<^verbatim>\<open>int\<close> of Go: the loop counts up to it and not beyond, so nothing wraps around,
  and it is taken as an integer.
\<close>

definition GeneratePoints ::
  "rounding \<Rightarrow> Runtime \<Rightarrow> Rand \<Rightarrow> PointVisualizer \<Rightarrow> (PointVisualizer \<times> Rand) outcome" where
  "GeneratePoints rd rt s pv =
     (case makeslice rt (NumPoints (config pv)) of
        Some p \<Rightarrow> Inl (p, pv, s)
      | None \<Rightarrow>
          Inr (GeneratePoints_loop rd 0
                 (pv\<lparr>points := replicate (nat (NumPoints (config pv))) \<lparr>X = Fin 0, Y = Fin 0\<rparr>\<rparr>) s))"

text \<open>The two scale factors of \<^verbatim>\<open>UpdateCanvas\<close> (lines 100 to 102).\<close>

definition padding :: float32 where
  "padding = Fin 20"

definition scaleX :: "rounding \<Rightarrow> GUIConfig \<Rightarrow> float32" where
  "scaleX rd c =
     fdiv (round32 rd) (fsub (round32 rd) (CanvasWidth c) (fmul (round32 rd) (Fin 2) padding))
       (convert (round32 rd) (fsub (round64 rd) (MaxX c) (MinX c)))"

definition scaleY :: "rounding \<Rightarrow> GUIConfig \<Rightarrow> float32" where
  "scaleY rd c =
     fdiv (round32 rd) (fsub (round32 rd) (CanvasHeight c) (fmul (round32 rd) (Fin 2) padding))
       (convert (round32 rd) (fsub (round64 rd) (MaxY c) (MinY c)))"

text \<open>The body of the loop over the points (lines 106 to 113): the circle of one point.\<close>

definition point_circle :: "rounding \<Rightarrow> GUIConfig \<Rightarrow> float32 \<Rightarrow> float32 \<Rightarrow> Point \<Rightarrow> CanvasObject" where
  "point_circle rd c sx sy point =
     (let canvasX =
            fsub (round32 rd)
              (fadd (round32 rd) padding
                 (fmul (round32 rd)
                    (convert (round32 rd) (fsub (round64 rd) (X point) (MinX c))) sx))
              (fdiv (round32 rd) (PointSize c) (Fin 2));
          canvasY =
            fsub (round32 rd)
              (fadd (round32 rd) padding
                 (fmul (round32 rd)
                    (convert (round32 rd) (fsub (round64 rd) (MaxY c) (Y point))) sy))
              (fdiv (round32 rd) (PointSize c) (Fin 2))
      in Circle (PointColor c) (canvasX, canvasY) (PointSize c, PointSize c))"

text \<open>
  The loop (lines 105 to 117) appends each circle to the container's objects and to
  \<^verbatim>\<open>pointObjects\<close>.
\<close>

fun add_points ::
  "rounding \<Rightarrow> GUIConfig \<Rightarrow> float32 \<Rightarrow> float32 \<Rightarrow> Point list
     \<Rightarrow> CanvasObject list \<times> CanvasObject list \<Rightarrow> CanvasObject list \<times> CanvasObject list" where
  "add_points rd c sx sy [] acc = acc"
| "add_points rd c sx sy (point # rest) (objs, pobjs) =
     add_points rd c sx sy rest
       (objs @ [point_circle rd c sx sy point], pobjs @ [point_circle rd c sx sy point])"

text \<open>
  \<^verbatim>\<open>UpdateCanvas\<close> (lines 82 to 120). The first statement writes through \<^verbatim>\<open>pv.canvas\<close>
  and panics when it is nil. There is no other way to fail, and no test of the domain.
\<close>

definition UpdateCanvas :: "rounding \<Rightarrow> PointVisualizer \<Rightarrow> PointVisualizer outcome" where
  "UpdateCanvas rd pv =
     (case canvas pv of
        None \<Rightarrow> Inl (NilPointerDereference, pv)
      | Some _ \<Rightarrow>
          (let c = config pv;
               bg = Rectangle (RGBA 248 249 250 255) None (Fin 0) (CanvasWidth c, CanvasHeight c);
               border = Rectangle Transparent (Some (RGBA 200 200 200 255)) (Fin 2)
                          (CanvasWidth c, CanvasHeight c);
               sx = scaleX rd c;
               sy = scaleY rd c;
               drawn = add_points rd c sx sy (points pv) ([bg, border], [])
           in Inr (pv\<lparr>canvas := Some (fst drawn), pointObjects := snd drawn\<rparr>)))"

text \<open>
  The handler of the generate button (lines 188 to 205). The four entries hold text;
  \<^verbatim>\<open>strconv.ParseFloat\<close> belongs to the library and is a parameter, \<open>None\<close> standing for
  a non-nil error. Each field is written when its own text parses, whatever the others do.
\<close>

record Entries =
  xMinEntry :: string
  xMaxEntry :: string
  yMinEntry :: string
  yMaxEntry :: string

definition update_config :: "(string \<Rightarrow> float64 option) \<Rightarrow> Entries \<Rightarrow> GUIConfig \<Rightarrow> GUIConfig" where
  "update_config ParseFloat es c =
     (let c1 = (case ParseFloat (xMinEntry es) of Some val \<Rightarrow> c\<lparr>MinX := val\<rparr> | None \<Rightarrow> c);
          c2 = (case ParseFloat (xMaxEntry es) of Some val \<Rightarrow> c1\<lparr>MaxX := val\<rparr> | None \<Rightarrow> c1);
          c3 = (case ParseFloat (yMinEntry es) of Some val \<Rightarrow> c2\<lparr>MinY := val\<rparr> | None \<Rightarrow> c2);
          c4 = (case ParseFloat (yMaxEntry es) of Some val \<Rightarrow> c3\<lparr>MaxY := val\<rparr> | None \<Rightarrow> c3)
      in c4)"

definition generateBtn ::
  "rounding \<Rightarrow> Runtime \<Rightarrow> (string \<Rightarrow> float64 option) \<Rightarrow> Entries \<Rightarrow> Rand \<Rightarrow> PointVisualizer
     \<Rightarrow> (PointVisualizer \<times> Rand) outcome" where
  "generateBtn rd rt ParseFloat es s pv =
     (case GeneratePoints rd rt s (pv\<lparr>config := update_config ParseFloat es (config pv)\<rparr>) of
        Inl p \<Rightarrow> Inl p
      | Inr (pv1, s1) \<Rightarrow>
          (case UpdateCanvas rd pv1 of
             Inl (p, pv2) \<Rightarrow> Inl (p, pv2, s1)
           | Inr pv2 \<Rightarrow> Inr (pv2, s1)))"

text \<open>The visualizer an outcome leaves behind, panic or not.\<close>

definition state_after :: "(PointVisualizer \<times> Rand) outcome \<Rightarrow> PointVisualizer" where
  "state_after r = (case r of Inl (p, pv, s) \<Rightarrow> pv | Inr (pv, s) \<Rightarrow> pv)"

section \<open>The coordinate mapper as the specification words it\<close>

text \<open>
  The specification's \<^verbatim>\<open>Domain\<close> and \<^verbatim>\<open>RenderSurface\<close>, and its \<^verbatim>\<open>toCanvas\<close>: a scale
  factor per axis, \<open>(width - 2 padding) / (maxX - minX)\<close> and the same for Y; then
  \<open>px = padding + (x - minX) * scaleX\<close> and the inverted
  \<open>py = padding + (maxY - y) * scaleY\<close>; both less half the point size. The domain is in
  \<^verbatim>\<open>float64\<close> and the surface in \<^verbatim>\<open>float32\<close>, as in the program.
\<close>

record Domain =
  minX :: float
  maxX :: float
  minY :: float
  maxY :: float

record RenderSurface =
  surface_width :: float
  surface_height :: float
  surface_padding :: float

definition toCanvas_spec ::
  "rounding \<Rightarrow> Point \<Rightarrow> Domain \<Rightarrow> RenderSurface \<Rightarrow> float \<Rightarrow> float \<times> float" where
  "toCanvas_spec rd point d sf diameter =
     (let scale_x = fdiv (round32 rd)
                      (fsub (round32 rd) (surface_width sf)
                         (fmul (round32 rd) (Fin 2) (surface_padding sf)))
                      (convert (round32 rd) (fsub (round64 rd) (maxX d) (minX d)));
          scale_y = fdiv (round32 rd)
                      (fsub (round32 rd) (surface_height sf)
                         (fmul (round32 rd) (Fin 2) (surface_padding sf)))
                      (convert (round32 rd) (fsub (round64 rd) (maxY d) (minY d)));
          px = fadd (round32 rd) (surface_padding sf)
                 (fmul (round32 rd)
                    (convert (round32 rd) (fsub (round64 rd) (X point) (minX d))) scale_x);
          py = fadd (round32 rd) (surface_padding sf)
                 (fmul (round32 rd)
                    (convert (round32 rd) (fsub (round64 rd) (maxY d) (Y point))) scale_y)
      in (fsub (round32 rd) px (fdiv (round32 rd) diameter (Fin 2)),
          fsub (round32 rd) py (fdiv (round32 rd) diameter (Fin 2))))"

text \<open>The domain and the surface that a configuration of the program stands for.\<close>

definition domain_of :: "GUIConfig \<Rightarrow> Domain" where
  "domain_of c = \<lparr>minX = MinX c, maxX = MaxX c, minY = MinY c, maxY = MaxY c\<rparr>"

definition surface_of :: "GUIConfig \<Rightarrow> RenderSurface" where
  "surface_of c = \<lparr>surface_width = CanvasWidth c, surface_height = CanvasHeight c,
                    surface_padding = Fin 20\<rparr>"

section \<open>The generator in closed form\<close>

text \<open>
  The points that \<open>n\<close> rounds of the loop write, in order: round \<open>k\<close> takes the draws
  \<open>2k\<close> and \<open>2k + 1\<close> of the source for X and Y.
\<close>

fun drawn :: "rounding \<Rightarrow> GUIConfig \<Rightarrow> Rand \<Rightarrow> nat \<Rightarrow> Point list" where
  "drawn rd c s 0 = []"
| "drawn rd c s (Suc n) =
     \<lparr>X = fadd (round64 rd) (MinX c)
            (fmul (round64 rd) (Fin (shd s)) (fsub (round64 rd) (MaxX c) (MinX c))),
      Y = fadd (round64 rd) (MinY c)
            (fmul (round64 rd) (Fin (shd (stl s))) (fsub (round64 rd) (MaxY c) (MinY c)))\<rparr>
     # drawn rd c (stl (stl s)) n"

text \<open>
  States for the examples: a source that returns \<open>1/2\<close> for ever, one that returns the
  largest value below 1 that \<^verbatim>\<open>rand.Float64\<close> can return, \<open>1 - 1 / 2 ^ 53\<close>, the visualizer
  of \<^verbatim>\<open>NewPointVisualizer\<close> once \<^verbatim>\<open>Run\<close> has created its container, and a runtime with
  the \<^verbatim>\<open>maxAlloc\<close> of 64-bit Linux, \<open>2 ^ 48\<close>, whose allocator provides every block of up
  to \<open>2 ^ 30\<close> bytes.
\<close>

definition halves :: Rand where
  "halves = sconst (1 / 2)"

definition nearly_ones :: Rand where
  "nearly_ones = sconst (1 - 1 / 2 ^ 53)"

definition started :: PointVisualizer where
  "started = (fst (NewPointVisualizer (\<lambda>_. halves) 0))\<lparr>canvas := Some []\<rparr>"

definition roomy :: Runtime where
  "roomy = \<lparr>maxAlloc = 2 ^ 48, mallocgc = (\<lambda>size. size \<le> 2 ^ 30)\<rparr>"

section \<open>Rounding at given numbers\<close>

lemma round_ieee:
  "round64 ieee = round_to 53 (- 1022) 1023" "round32 ieee = round_to 24 (- 126) 127"
  by (simp_all add: ieee_def)

lemma round_to_0 [simp]: "round_to p emin emax 0 = Fin 0"
  by (simp add: round_to_def)

lemma binade_eqI:
  assumes "2 powi e \<le> \<bar>x\<bar>" and "\<bar>x\<bar> < 2 powi (e + 1)"
  shows "binade x = e"
proof -
  have pos: "0 < \<bar>x\<bar>"
    using assms(1) by (smt (verit) zero_less_power_int)
  have a: "(2::real) powr real_of_int k = 2 powi k" for k
    by (simp add: powr_real_of_int')
  have "(2::real) powr real_of_int e \<le> \<bar>x\<bar>"
    using assms(1) by (simp only: a)
  moreover have "\<bar>x\<bar> < 2 powr (real_of_int e + 1)"
    using assms(2) a [of "e + 1"] by simp
  ultimately show ?thesis
    unfolding binade_def using pos by (subst floor_log_eq_powr_iff) simp_all
qed

text \<open>
  The rounding of \<open>x\<close>, given its binade \<open>e\<close> in the normal range and the integer \<open>m\<close> that
  \<open>x / 2 ^ (e - p + 1)\<close> rounds to.
\<close>

lemma round_to_eval:
  assumes "2 powi e \<le> \<bar>x\<bar>" and "\<bar>x\<bar> < 2 powi (e + 1)" and "emin \<le> e"
    and "rne (x / 2 powi (e - int p + 1)) = m"
    and "\<bar>of_int m * 2 powi (e - int p + 1)\<bar> < (2::real) powi (emax + 1)"
  shows "round_to p emin emax x = Fin (of_int m * 2 powi (e - int p + 1))"
proof -
  have "x \<noteq> 0"
    using assms(1) by (smt (verit) zero_less_power_int)
  moreover have "binade x = e"
    using assms(1,2) by (rule binade_eqI)
  ultimately show ?thesis
    using assms(3,4,5) by (simp add: round_to_def round_real_def quantum_def max_def)
qed

text \<open>Numbers of the examples that the formats hold exactly.\<close>

lemma round64_1: "round_to 53 (- 1022) 1023 1 = Fin 1"
proof -
  have "round_to 53 (- 1022) 1023 1 = Fin (of_int 4503599627370496 * 2 powi (0 - int 53 + 1))"
    by (rule round_to_eval) (simp_all add: rne_def power_int_minus)
  then show ?thesis
    by (simp add: power_int_minus)
qed

lemma round64_7: "round_to 53 (- 1022) 1023 7 = Fin 7"
proof -
  have "round_to 53 (- 1022) 1023 7 = Fin (of_int 7881299347898368 * 2 powi (2 - int 53 + 1))"
    by (rule round_to_eval) (simp_all add: rne_def power_int_minus)
  then show ?thesis
    by (simp add: power_int_minus)
qed

lemma round64_50: "round_to 53 (- 1022) 1023 50 = Fin 50"
proof -
  have "round_to 53 (- 1022) 1023 50 = Fin (of_int 7036874417766400 * 2 powi (5 - int 53 + 1))"
    by (rule round_to_eval) (simp_all add: rne_def power_int_minus)
  then show ?thesis
    by (simp add: power_int_minus)
qed

lemma round64_100: "round_to 53 (- 1022) 1023 100 = Fin 100"
proof -
  have "round_to 53 (- 1022) 1023 100 = Fin (of_int 7036874417766400 * 2 powi (6 - int 53 + 1))"
    by (rule round_to_eval) (simp_all add: rne_def power_int_minus)
  then show ?thesis
    by (simp add: power_int_minus)
qed

lemma round64_273: "round_to 53 (- 1022) 1023 273 = Fin 273"
proof -
  have "round_to 53 (- 1022) 1023 273 = Fin (of_int 4802666790125568 * 2 powi (8 - int 53 + 1))"
    by (rule round_to_eval) (simp_all add: rne_def power_int_minus)
  then show ?thesis
    by (simp add: power_int_minus)
qed

lemma round64_nearly_one: "round_to 53 (- 1022) 1023 (9007199254740991 / 9007199254740992) = Fin (9007199254740991 / 9007199254740992)"
proof -
  have "round_to 53 (- 1022) 1023 (9007199254740991 / 9007199254740992) = Fin (of_int 9007199254740991 * 2 powi ((- 1) - int 53 + 1))"
    by (rule round_to_eval) (simp_all add: rne_def power_int_minus)
  then show ?thesis
    by (simp add: power_int_minus)
qed

lemma round64_below_50: "round_to 53 (- 1022) 1023 (54975581388799 / 1099511627776) = Fin (54975581388799 / 1099511627776)"
proof -
  have "round_to 53 (- 1022) 1023 (54975581388799 / 1099511627776) = Fin (of_int 7036874417766272 * 2 powi (5 - int 53 + 1))"
    by (rule round_to_eval) (simp_all add: rne_def power_int_minus)
  then show ?thesis
    by (simp add: power_int_minus)
qed

lemma round32_3: "round_to 24 (- 126) 127 3 = Fin 3"
proof -
  have "round_to 24 (- 126) 127 3 = Fin (of_int 12582912 * 2 powi (1 - int 24 + 1))"
    by (rule round_to_eval) (simp_all add: rne_def power_int_minus)
  then show ?thesis
    by (simp add: power_int_minus)
qed

lemma round32_17: "round_to 24 (- 126) 127 17 = Fin 17"
proof -
  have "round_to 24 (- 126) 127 17 = Fin (of_int 8912896 * 2 powi (4 - int 24 + 1))"
    by (rule round_to_eval) (simp_all add: rne_def power_int_minus)
  then show ?thesis
    by (simp add: power_int_minus)
qed

lemma round32_20: "round_to 24 (- 126) 127 20 = Fin 20"
proof -
  have "round_to 24 (- 126) 127 20 = Fin (of_int 10485760 * 2 powi (4 - int 24 + 1))"
    by (rule round_to_eval) (simp_all add: rne_def power_int_minus)
  then show ?thesis
    by (simp add: power_int_minus)
qed

lemma round32_40: "round_to 24 (- 126) 127 40 = Fin 40"
proof -
  have "round_to 24 (- 126) 127 40 = Fin (of_int 10485760 * 2 powi (5 - int 24 + 1))"
    by (rule round_to_eval) (simp_all add: rne_def power_int_minus)
  then show ?thesis
    by (simp add: power_int_minus)
qed

lemma round32_50: "round_to 24 (- 126) 127 50 = Fin 50"
proof -
  have "round_to 24 (- 126) 127 50 = Fin (of_int 13107200 * 2 powi (5 - int 24 + 1))"
    by (rule round_to_eval) (simp_all add: rne_def power_int_minus)
  then show ?thesis
    by (simp add: power_int_minus)
qed

lemma round32_100: "round_to 24 (- 126) 127 100 = Fin 100"
proof -
  have "round_to 24 (- 126) 127 100 = Fin (of_int 13107200 * 2 powi (6 - int 24 + 1))"
    by (rule round_to_eval) (simp_all add: rne_def power_int_minus)
  then show ?thesis
    by (simp add: power_int_minus)
qed

lemma round32_197: "round_to 24 (- 126) 127 197 = Fin 197"
proof -
  have "round_to 24 (- 126) 127 197 = Fin (of_int 12910592 * 2 powi (7 - int 24 + 1))"
    by (rule round_to_eval) (simp_all add: rne_def power_int_minus)
  then show ?thesis
    by (simp add: power_int_minus)
qed

lemma round32_200: "round_to 24 (- 126) 127 200 = Fin 200"
proof -
  have "round_to 24 (- 126) 127 200 = Fin (of_int 13107200 * 2 powi (7 - int 24 + 1))"
    by (rule round_to_eval) (simp_all add: rne_def power_int_minus)
  then show ?thesis
    by (simp add: power_int_minus)
qed

lemma round32_273: "round_to 24 (- 126) 127 273 = Fin 273"
proof -
  have "round_to 24 (- 126) 127 273 = Fin (of_int 8945664 * 2 powi (8 - int 24 + 1))"
    by (rule round_to_eval) (simp_all add: rne_def power_int_minus)
  then show ?thesis
    by (simp add: power_int_minus)
qed

lemma round32_297: "round_to 24 (- 126) 127 297 = Fin 297"
proof -
  have "round_to 24 (- 126) 127 297 = Fin (of_int 9732096 * 2 powi (8 - int 24 + 1))"
    by (rule round_to_eval) (simp_all add: rne_def power_int_minus)
  then show ?thesis
    by (simp add: power_int_minus)
qed

lemma round32_300: "round_to 24 (- 126) 127 300 = Fin 300"
proof -
  have "round_to 24 (- 126) 127 300 = Fin (of_int 9830400 * 2 powi (8 - int 24 + 1))"
    by (rule round_to_eval) (simp_all add: rne_def power_int_minus)
  then show ?thesis
    by (simp add: power_int_minus)
qed

lemma round32_360: "round_to 24 (- 126) 127 360 = Fin 360"
proof -
  have "round_to 24 (- 126) 127 360 = Fin (of_int 11796480 * 2 powi (8 - int 24 + 1))"
    by (rule round_to_eval) (simp_all add: rne_def power_int_minus)
  then show ?thesis
    by (simp add: power_int_minus)
qed

lemma round32_380: "round_to 24 (- 126) 127 380 = Fin 380"
proof -
  have "round_to 24 (- 126) 127 380 = Fin (of_int 12451840 * 2 powi (8 - int 24 + 1))"
    by (rule round_to_eval) (simp_all add: rne_def power_int_minus)
  then show ?thesis
    by (simp add: power_int_minus)
qed

lemma round32_560: "round_to 24 (- 126) 127 560 = Fin 560"
proof -
  have "round_to 24 (- 126) 127 560 = Fin (of_int 9175040 * 2 powi (9 - int 24 + 1))"
    by (rule round_to_eval) (simp_all add: rne_def power_int_minus)
  then show ?thesis
    by (simp add: power_int_minus)
qed

lemma round32_20_plus: "round_to 24 (- 126) 127 (9502721 / 16384) = Fin (9502721 / 16384)"
proof -
  have "round_to 24 (- 126) 127 (9502721 / 16384) = Fin (of_int 9502721 * 2 powi (9 - int 24 + 1))"
    by (rule round_to_eval) (simp_all add: rne_def power_int_minus)
  then show ?thesis
    by (simp add: power_int_minus)
qed

lemma round32_380_plus_ulp: "round_to 24 (- 126) 127 (12451841 / 32768) = Fin (12451841 / 32768)"
proof -
  have "round_to 24 (- 126) 127 (12451841 / 32768) = Fin (of_int 12451841 * 2 powi (8 - int 24 + 1))"
    by (rule round_to_eval) (simp_all add: rne_def power_int_minus)
  then show ?thesis
    by (simp add: power_int_minus)
qed

lemma round64_half: "round_to 53 (- 1022) 1023 (1 / 2) = Fin (1 / 2)"
proof -
  have "round_to 53 (- 1022) 1023 (1 / 2) = Fin (of_int 4503599627370496 * 2 powi ((- 1) - int 53 + 1))"
    by (rule round_to_eval) (simp_all add: rne_def power_int_minus)
  then show ?thesis
    by (simp add: power_int_minus)
qed

lemma round32_577_plus_ulp: "round_to 24 (- 126) 127 (9453569 / 16384) = Fin (9453569 / 16384)"
proof -
  have "round_to 24 (- 126) 127 (9453569 / 16384) = Fin (of_int 9453569 * 2 powi (9 - int 24 + 1))"
    by (rule round_to_eval) (simp_all add: rne_def power_int_minus)
  then show ?thesis
    by (simp add: power_int_minus)
qed

lemma round32_377_plus_ulp: "round_to 24 (- 126) 127 (12353537 / 32768) = Fin (12353537 / 32768)"
proof -
  have "round_to 24 (- 126) 127 (12353537 / 32768) = Fin (of_int 12353537 * 2 powi (8 - int 24 + 1))"
    by (rule round_to_eval) (simp_all add: rne_def power_int_minus)
  then show ?thesis
    by (simp add: power_int_minus)
qed

lemma round32_6: "round_to 24 (- 126) 127 6 = Fin 6"
proof -
  have "round_to 24 (- 126) 127 6 = Fin (of_int 12582912 * 2 powi (2 - int 24 + 1))"
    by (rule round_to_eval) (simp_all add: rne_def power_int_minus)
  then show ?thesis
    by (simp add: power_int_minus)
qed

text \<open>Numbers of the examples that are rounded.\<close>

lemma round64_tie_below_2: "round_to 53 (- 1022) 1023 (18014398509481983 / 9007199254740992) = Fin 2"
proof -
  have "round_to 53 (- 1022) 1023 (18014398509481983 / 9007199254740992) = Fin (of_int 9007199254740992 * 2 powi (0 - int 53 + 1))"
    by (rule round_to_eval) (simp_all add: rne_def power_int_minus)
  then show ?thesis
    by (simp add: power_int_minus)
qed

lemma round32_below_50: "round_to 24 (- 126) 127 (54975581388799 / 1099511627776) = Fin 50"
proof -
  have "round_to 24 (- 126) 127 (54975581388799 / 1099511627776) = Fin (of_int 13107200 * 2 powi (5 - int 24 + 1))"
    by (rule round_to_eval) (simp_all add: rne_def power_int_minus)
  then show ?thesis
    by (simp add: power_int_minus)
qed

lemma round32_scale_560_100: "round_to 24 (- 126) 127 (28 / 5) = Fin (11744051 / 2097152)"
proof -
  have "round_to 24 (- 126) 127 (28 / 5) = Fin (of_int 11744051 * 2 powi (2 - int 24 + 1))"
    by (rule round_to_eval) (simp_all add: rne_def power_int_minus)
  then show ?thesis
    by (simp add: power_int_minus)
qed

lemma round32_scale_360_100: "round_to 24 (- 126) 127 (18 / 5) = Fin (7549747 / 2097152)"
proof -
  have "round_to 24 (- 126) 127 (18 / 5) = Fin (of_int 15099494 * 2 powi (1 - int 24 + 1))"
    by (rule round_to_eval) (simp_all add: rne_def power_int_minus)
  then show ?thesis
    by (simp add: power_int_minus)
qed

lemma round32_50_times_scaleX: "round_to 24 (- 126) 127 (293601275 / 1048576) = Fin 280"
proof -
  have "round_to 24 (- 126) 127 (293601275 / 1048576) = Fin (of_int 9175040 * 2 powi (8 - int 24 + 1))"
    by (rule round_to_eval) (simp_all add: rne_def power_int_minus)
  then show ?thesis
    by (simp add: power_int_minus)
qed

lemma round32_50_times_scaleY: "round_to 24 (- 126) 127 (188743675 / 1048576) = Fin 180"
proof -
  have "round_to 24 (- 126) 127 (188743675 / 1048576) = Fin (of_int 11796480 * 2 powi (7 - int 24 + 1))"
    by (rule round_to_eval) (simp_all add: rne_def power_int_minus)
  then show ?thesis
    by (simp add: power_int_minus)
qed

lemma round32_100_times_scaleY: "round_to 24 (- 126) 127 (188743675 / 524288) = Fin 360"
proof -
  have "round_to 24 (- 126) 127 (188743675 / 524288) = Fin (of_int 11796480 * 2 powi (8 - int 24 + 1))"
    by (rule round_to_eval) (simp_all add: rne_def power_int_minus)
  then show ?thesis
    by (simp add: power_int_minus)
qed

lemma round32_scale_560_273: "round_to 24 (- 126) 127 (80 / 39) = Fin (8603701 / 4194304)"
proof -
  have "round_to 24 (- 126) 127 (80 / 39) = Fin (of_int 8603701 * 2 powi (1 - int 24 + 1))"
    by (rule round_to_eval) (simp_all add: rne_def power_int_minus)
  then show ?thesis
    by (simp add: power_int_minus)
qed

lemma round32_273_times_scale: "round_to 24 (- 126) 127 (2348810373 / 4194304) = Fin (9175041 / 16384)"
proof -
  have "round_to 24 (- 126) 127 (2348810373 / 4194304) = Fin (of_int 9175041 * 2 powi (9 - int 24 + 1))"
    by (rule round_to_eval) (simp_all add: rne_def power_int_minus)
  then show ?thesis
    by (simp add: power_int_minus)
qed

lemma round32_560_slack: "round_to 24 (- 126) 127 (587202595 / 1048576) = Fin (9175041 / 16384)"
proof -
  have "round_to 24 (- 126) 127 (587202595 / 1048576) = Fin (of_int 9175041 * 2 powi (9 - int 24 + 1))"
    by (rule round_to_eval) (simp_all add: rne_def power_int_minus)
  then show ?thesis
    by (simp add: power_int_minus)
qed

lemma round32_360_slack: "round_to 24 (- 126) 127 (754974765 / 2097152) = Fin (11796481 / 32768)"
proof -
  have "round_to 24 (- 126) 127 (754974765 / 2097152) = Fin (of_int 11796481 * 2 powi (8 - int 24 + 1))"
    by (rule round_to_eval) (simp_all add: rne_def power_int_minus)
  then show ?thesis
    by (simp add: power_int_minus)
qed

section \<open>Rounding to nearest\<close>

text \<open>
  The rounded value of a nonnegative number lies between the powers of two around it,
  and rounding to nearest keeps the order of the numbers.
\<close>

lemma rne_cases: "rne x = \<lfloor>x\<rfloor> \<or> rne x = \<lfloor>x\<rfloor> + 1"
  by (simp add: rne_def Let_def)

lemma rne_mono:
  assumes "a \<le> b"
  shows "rne a \<le> rne b"
proof (cases "\<lfloor>a\<rfloor> = \<lfloor>b\<rfloor>")
  case True
  have "a - of_int \<lfloor>a\<rfloor> \<le> b - of_int \<lfloor>a\<rfloor>"
    using assms by simp
  then show ?thesis
    using True by (auto simp: rne_def Let_def)
next
  case False
  have "\<lfloor>a\<rfloor> \<le> \<lfloor>b\<rfloor>"
    using assms by (rule floor_mono)
  with False have lt: "\<lfloor>a\<rfloor> + 1 \<le> \<lfloor>b\<rfloor>"
    by simp
  have "rne a \<le> \<lfloor>a\<rfloor> + 1"
    using rne_cases [of a] by auto
  moreover have "\<lfloor>b\<rfloor> \<le> rne b"
    using rne_cases [of b] by auto
  ultimately show ?thesis
    using lt by linarith
qed

lemma rne_int [simp]: "rne (of_int m) = m"
  by (simp add: rne_def)

lemma rne_ge: "of_int m \<le> x \<Longrightarrow> m \<le> rne x"
  using rne_mono [of "of_int m" x] by simp

lemma rne_le: "x \<le> of_int m \<Longrightarrow> rne x \<le> m"
  using rne_mono [of x "of_int m"] by simp

lemma rne_minus: "rne (- x) = - rne x"
proof (cases "x = of_int \<lfloor>x\<rfloor>")
  case True
  then obtain m where "x = of_int m" ..
  then show ?thesis
    by (simp flip: of_int_minus)
next
  case False
  have d: "0 < x - of_int \<lfloor>x\<rfloor>" "x - of_int \<lfloor>x\<rfloor> < 1"
    using False of_int_floor_le [of x] floor_correct [of x] by linarith+
  have fl: "\<lfloor>- x\<rfloor> = - \<lfloor>x\<rfloor> - 1"
    using d by (subst floor_eq_iff) simp
  show ?thesis
    using d by (auto simp: rne_def Let_def fl)
qed

lemma binade_bounds:
  assumes "x \<noteq> 0"
  shows "2 powi binade x \<le> \<bar>x\<bar>" and "\<bar>x\<bar> < 2 powi (binade x + 1)"
proof -
  have pos: "0 < \<bar>x\<bar>"
    using assms by simp
  have a: "(2::real) powr real_of_int k = 2 powi k" for k
    by (simp add: powr_real_of_int')
  have "2 powr real_of_int (binade x) \<le> \<bar>x\<bar> \<and> \<bar>x\<bar> < 2 powr (real_of_int (binade x) + 1)"
    using floor_log_eq_powr_iff [of "\<bar>x\<bar>" 2 "binade x"] pos by (simp add: binade_def)
  then show "2 powi binade x \<le> \<bar>x\<bar>" and "\<bar>x\<bar> < 2 powi (binade x + 1)"
    using a [of "binade x"] a [of "binade x + 1"] by simp_all
qed

lemma binade_mono:
  assumes "x \<noteq> 0" and "\<bar>x\<bar> \<le> \<bar>y\<bar>"
  shows "binade x \<le> binade y"
proof -
  have "log 2 \<bar>x\<bar> \<le> log 2 \<bar>y\<bar>"
    using assms by simp
  then show ?thesis
    unfolding binade_def by (rule floor_mono)
qed

lemma binade_minus [simp]: "binade (- x) = binade x"
  by (simp add: binade_def)

lemma quantum_pos [simp]: "0 < quantum p emin x"
  by (simp add: quantum_def)

lemma quantum_nonneg [simp]: "0 \<le> quantum p emin x"
  by (simp add: quantum_def)

lemma quantum_neq_0 [simp]: "quantum p emin x \<noteq> 0"
  by (simp add: quantum_def)

lemma rne_0 [simp]: "rne 0 = 0"
  by (simp add: rne_def)

lemma quantum_minus [simp]: "quantum p emin (- x) = quantum p emin x"
  by (simp add: quantum_def)

lemma round_real_minus: "round_real p emin (- x) = - round_real p emin x"
  by (simp add: round_real_def rne_minus)

lemma round_real_0 [simp]: "round_real p emin 0 = 0"
  by (simp add: round_real_def)

lemma round_real_nonneg:
  assumes "0 \<le> x"
  shows "0 \<le> round_real p emin x"
proof -
  have "of_int 0 \<le> x / quantum p emin x"
    using assms by (simp add: divide_nonneg_nonneg)
  then have "0 \<le> rne (x / quantum p emin x)"
    by (rule rne_ge)
  then show ?thesis
    by (simp add: round_real_def)
qed

lemma round_real_upper:
  assumes "0 < x"
  shows "round_real p emin x \<le> 2 powi (max (binade x) emin + 1)"
proof -
  let ?E = "max (binade x) emin"
  have "x < 2 powi (binade x + 1)"
    using binade_bounds(2) [of x] assms by simp
  also have "\<dots> \<le> 2 powi (?E + 1)"
    by (intro power_int_increasing) simp_all
  finally have "x / quantum p emin x < 2 powi (?E + 1) / quantum p emin x"
    by (intro divide_strict_right_mono) simp_all
  also have "2 powi (?E + 1) / quantum p emin x = (2::real) powi int p"
    by (simp add: quantum_def flip: power_int_diff)
  also have "\<dots> = of_int (2 ^ p)"
    by simp
  finally have "rne (x / quantum p emin x) \<le> 2 ^ p"
    by (intro rne_le) simp
  then have "round_real p emin x \<le> of_int (2 ^ p) * quantum p emin x"
    unfolding round_real_def by (intro mult_right_mono) simp_all
  also have "\<dots> = 2 powi int p * 2 powi (?E - int p + 1)"
    by (simp add: quantum_def)
  also have "\<dots> = 2 powi (int p + (?E - int p + 1))"
    by (subst power_int_add) simp_all
  also have "int p + (?E - int p + 1) = ?E + 1"
    by simp
  finally show ?thesis .
qed

lemma round_real_lower:
  assumes "0 < x" and "emin \<le> binade x" and "0 < p"
  shows "2 powi binade x \<le> round_real p emin x"
proof -
  have q: "quantum p emin x = 2 powi (binade x - int p + 1)"
    using assms(2) by (simp add: quantum_def max_def)
  have "(2::real) powi binade x \<le> x"
    using binade_bounds(1) [of x] assms(1) by simp
  then have "2 powi binade x / quantum p emin x \<le> x / quantum p emin x"
    by (intro divide_right_mono) simp_all
  moreover have "2 powi binade x / quantum p emin x = (2::real) powi int (p - 1)"
    using assms(3) by (simp add: q of_nat_diff flip: power_int_diff)
  moreover have "(2::real) powi int (p - 1) = of_int (2 ^ (p - 1))"
    by simp
  ultimately have "2 ^ (p - 1) \<le> rne (x / quantum p emin x)"
    by (intro rne_ge) simp
  then have "of_int (2 ^ (p - 1)) * quantum p emin x \<le> round_real p emin x"
    unfolding round_real_def by (intro mult_right_mono) simp_all
  moreover have "of_int (2 ^ (p - 1)) * quantum p emin x = 2 powi int (p - 1) * 2 powi (binade x - int p + 1)"
    by (simp add: q)
  moreover have "2 powi int (p - 1) * 2 powi (binade x - int p + 1) =
      (2::real) powi (int (p - 1) + (binade x - int p + 1))"
    by (subst power_int_add) simp_all
  moreover have "int (p - 1) + (binade x - int p + 1) = binade x"
    using assms(3) by (simp add: of_nat_diff)
  ultimately show ?thesis
    by simp
qed

lemma round_real_pos_mono:
  assumes "0 < x" and "x \<le> y" and "0 < p"
  shows "round_real p emin x \<le> round_real p emin y"
proof -
  let ?Ex = "max (binade x) emin" and ?Ey = "max (binade y) emin"
  have y: "0 < y"
    using assms by simp
  have "binade x \<le> binade y"
    using assms by (intro binade_mono) simp_all
  then have le: "?Ex \<le> ?Ey"
    by simp
  show ?thesis
  proof (cases "?Ex = ?Ey")
    case True
    then have q: "quantum p emin x = quantum p emin y"
      by (simp add: quantum_def)
    have "x / quantum p emin y \<le> y / quantum p emin y"
      using assms(2) by (intro divide_right_mono) simp_all
    then have "rne (x / quantum p emin y) \<le> rne (y / quantum p emin y)"
      by (rule rne_mono)
    then show ?thesis
      unfolding round_real_def q by (intro mult_right_mono) simp_all
  next
    case False
    with le have lt: "?Ex + 1 \<le> ?Ey"
      by simp
    then have ey: "?Ey = binade y" "emin \<le> binade y"
      by (simp_all add: max_def split: if_splits)
    have "round_real p emin x \<le> 2 powi (?Ex + 1)"
      using assms(1) by (rule round_real_upper)
    also have "\<dots> \<le> 2 powi ?Ey"
      using lt by (intro power_int_increasing) simp_all
    also have "\<dots> \<le> round_real p emin y"
      unfolding ey(1) using y ey(2) assms(3) by (rule round_real_lower)
    finally show ?thesis .
  qed
qed

lemma round_real_mono:
  assumes "x \<le> y" and "0 < p"
  shows "round_real p emin x \<le> round_real p emin y"
proof -
  consider "0 < x" | "x \<le> 0" "0 \<le> y" | "y < 0"
    using assms(1) by linarith
  then show ?thesis
  proof cases
    case 1
    then show ?thesis
      using assms by (rule round_real_pos_mono)
  next
    case 2
    have "0 \<le> round_real p emin (- x)"
      using 2(1) by (intro round_real_nonneg) simp
    then have "round_real p emin x \<le> 0"
      by (simp add: round_real_minus)
    also have "0 \<le> round_real p emin y"
      using 2(2) by (rule round_real_nonneg)
    finally show ?thesis .
  next
    case 3
    then have "round_real p emin (- y) \<le> round_real p emin (- x)"
      using assms by (intro round_real_pos_mono) simp_all
    then show ?thesis
      by (simp add: round_real_minus)
  qed
qed

section \<open>Monotone operations\<close>

text \<open>
  The IEEE roundings are monotone, and so are the operations of the program in each
  argument, as long as the result is not NaN.
\<close>

lemma round_real_sign:
  "0 < x \<Longrightarrow> 0 \<le> round_real p emin x" "x < 0 \<Longrightarrow> round_real p emin x \<le> 0"
  using round_real_nonneg [of x p emin] round_real_nonneg [of "- x" p emin]
  by (simp_all add: round_real_minus)

lemma round_to_mono:
  assumes "x \<le> y" and "0 < p"
  shows "fle (round_to p emin emax x) (round_to p emin emax y)"
proof -
  have m: "round_real p emin x \<le> round_real p emin y"
    using assms by (rule round_real_mono)
  have T: "(0::real) < 2 powi (emax + 1)"
    by simp
  have s: "0 < x \<longrightarrow> 0 \<le> round_real p emin x" "x < 0 \<longrightarrow> round_real p emin x \<le> 0"
    "0 < y \<longrightarrow> 0 \<le> round_real p emin y" "y < 0 \<longrightarrow> round_real p emin y \<le> 0"
    by (simp_all add: round_real_sign)
  show ?thesis
    using assms(1) m T s
    by (auto simp: round_to_def abs_if split: if_splits)
qed

lemma monotone_round_to: "0 < p \<Longrightarrow> monotone_rounding (round_to p emin emax)"
  by (simp add: monotone_rounding_def round_to_mono)

lemma monotone_not_NaN: "monotone_rounding rnd \<Longrightarrow> rnd x \<noteq> NaN"
  by (metis fle.simps(2) monotone_rounding_def order_refl)

lemma fle_PInf [simp]: "fle u PInf \<longleftrightarrow> u \<noteq> NaN"
  by (cases u) simp_all

lemma fle_NInf [simp]: "fle NInf u \<longleftrightarrow> u \<noteq> NaN"
  by (cases u) simp_all

lemma convert_mono:
  assumes "monotone_rounding rnd" and "fle u v"
  shows "fle (convert rnd u) (convert rnd v)"
  using assms monotone_not_NaN [OF assms(1)]
  by (cases u; cases v) (auto simp: monotone_rounding_def)

lemma fadd_mono_left:
  assumes "monotone_rounding rnd" and "fle u v"
    and "fadd rnd u c \<noteq> NaN" and "fadd rnd v c \<noteq> NaN"
  shows "fle (fadd rnd u c) (fadd rnd v c)"
  using assms monotone_not_NaN [OF assms(1)]
  by (cases u; cases v; cases c) (auto simp: monotone_rounding_def)

lemma fadd_mono_right:
  assumes "monotone_rounding rnd" and "fle u v"
    and "fadd rnd c u \<noteq> NaN" and "fadd rnd c v \<noteq> NaN"
  shows "fle (fadd rnd c u) (fadd rnd c v)"
  using assms monotone_not_NaN [OF assms(1)]
  by (cases u; cases v; cases c) (auto simp: monotone_rounding_def)

lemma fsub_mono_left:
  assumes "monotone_rounding rnd" and "fle u v"
    and "fsub rnd u c \<noteq> NaN" and "fsub rnd v c \<noteq> NaN"
  shows "fle (fsub rnd u c) (fsub rnd v c)"
  using assms unfolding fsub_def by (rule fadd_mono_left)

lemma fmul_mono_left:
  assumes "monotone_rounding rnd" and "fle u v" and "fle (Fin 0) s"
    and "fmul rnd u s \<noteq> NaN" and "fmul rnd v s \<noteq> NaN"
  shows "fle (fmul rnd u s) (fmul rnd v s)"
proof (cases s)
  case (Fin t)
  then have t: "0 \<le> t"
    using assms(3) by simp
  show ?thesis
    using assms(1,2,4,5) monotone_not_NaN [OF assms(1)] t
    by (cases u; cases v) (auto simp: Fin monotone_rounding_def mult_right_mono split: if_splits)
next
  case PInf
  show ?thesis
    using assms(2,4,5)
    by (cases u; cases v) (auto simp: PInf split: if_splits)
next
  case NInf
  then show ?thesis
    using assms(3) by simp
next
  case NaN
  then show ?thesis
    using assms(3) by simp
qed

lemma fadd_NaN_right [simp]: "fadd rnd c NaN = NaN"
  by (cases c) simp_all

lemma fmul_NaN_right [simp]: "fmul rnd c NaN = NaN"
  by (cases c) simp_all

lemma fsub_NaN_left [simp]: "fsub rnd NaN c = NaN"
  by (simp add: fsub_def)

lemma monotone_round32: "monotone_rounding (round32 ieee)"
  by (simp add: round_ieee monotone_round_to)

lemma monotone_round64: "monotone_rounding (round64 ieee)"
  by (simp add: round_ieee monotone_round_to)

lemma round_ieee_nonneg:
  "0 \<le> x \<Longrightarrow> fle (Fin 0) (round32 ieee x)" "0 \<le> x \<Longrightarrow> fle (Fin 0) (round64 ieee x)"
proof -
  assume "0 \<le> x"
  then have "fle (round32 ieee 0) (round32 ieee x)" "fle (round64 ieee 0) (round64 ieee x)"
    using monotone_round32 monotone_round64 by (simp_all add: monotone_rounding_def)
  then show "fle (Fin 0) (round32 ieee x)" "fle (Fin 0) (round64 ieee x)"
    by (simp_all add: round_ieee)
qed

lemma round_between:
  assumes "0 < p"
    and "round_to p emin emax lo = Fin lo'" and "round_to p emin emax hi = Fin hi'"
    and "lo \<le> x" and "x \<le> hi"
  shows "\<exists>y. round_to p emin emax x = Fin y \<and> lo' \<le> y \<and> y \<le> hi'"
proof -
  have "fle (round_to p emin emax lo) (round_to p emin emax x)"
    and "fle (round_to p emin emax x) (round_to p emin emax hi)"
    using assms(1,4,5) by (auto intro!: round_to_mono)
  then show ?thesis
    unfolding assms(2,3) by (cases "round_to p emin emax x") simp_all
qed

lemma convert_not_NaN: "monotone_rounding rnd \<Longrightarrow> u \<noteq> NaN \<Longrightarrow> convert rnd u \<noteq> NaN"
  using monotone_not_NaN [of rnd] by (cases u) simp_all

lemma fmul_pos_not_NaN:
  "monotone_rounding rnd \<Longrightarrow> u \<noteq> NaN \<Longrightarrow> 0 < s \<Longrightarrow> fmul rnd u (Fin s) \<noteq> NaN"
  using monotone_not_NaN [of rnd] by (cases u) simp_all

lemma fadd_Fin_not_NaN: "monotone_rounding rnd \<Longrightarrow> u \<noteq> NaN \<Longrightarrow> fadd rnd (Fin v) u \<noteq> NaN"
  using monotone_not_NaN [of rnd] by (cases u) simp_all

lemma fsub_Fin_right_not_NaN:
  "monotone_rounding rnd \<Longrightarrow> u \<noteq> NaN \<Longrightarrow> fsub rnd u (Fin h) \<noteq> NaN"
  using monotone_not_NaN [of rnd] by (cases u) (simp_all add: fsub_def)

lemma half_finite:
  assumes "is_float32 d"
  shows "\<exists>h. fdiv (round32 ieee) (Fin d) (Fin 2) = Fin h"
proof (cases "0 \<le> d")
  case True
  then have "0 \<le> d / 2" and "d / 2 \<le> d"
    by simp_all
  then have "\<exists>h. round_to 24 (- 126) 127 (d / 2) = Fin h \<and> 0 \<le> h \<and> h \<le> d"
    using assms round_between [of 24 "- 126" 127 0 0 d d "d / 2"] by (simp add: is_float32_def)
  then show ?thesis
    by (auto simp: round_ieee)
next
  case False
  then have "d \<le> d / 2" and "d / 2 \<le> 0"
    by simp_all
  then have "\<exists>h. round_to 24 (- 126) 127 (d / 2) = Fin h \<and> d \<le> h \<and> h \<le> 0"
    using assms round_between [of 24 "- 126" 127 d d 0 0 "d / 2"] by (simp add: is_float32_def)
  then show ?thesis
    by (auto simp: round_ieee)
qed

lemma fle_trans: "fle u v \<Longrightarrow> fle v w \<Longrightarrow> fle u w"
  by (cases u; cases v; cases w) simp_all

lemma fle_not_NaN: "fle u v \<Longrightarrow> u \<noteq> NaN" "fle u v \<Longrightarrow> v \<noteq> NaN"
  by (cases u; cases v; simp)+

section \<open>A draw inside the domain\<close>

text \<open>
  With the width \<open>t = maxX - minX\<close> rounded up to \<open>w\<close>, a product \<open>r * w\<close> with
  \<open>r \<le> 1 - 1 / 2 ^ p\<close> is rounded to at most \<open>t\<close>: it lies below the middle of the two
  values around \<open>t\<close>. So \<^verbatim>\<open>MinX + rand.Float64()*(MaxX-MinX)\<close> stays in the closed
  interval from \<^verbatim>\<open>MinX\<close> to \<^verbatim>\<open>MaxX\<close>. A difference of two values that lies below the
  normal range is a value itself and is not rounded.
\<close>

lemma rne_below_half:
  assumes "x < of_int f + 1 / 2"
  shows "rne x \<le> f"
proof (cases "\<lfloor>x\<rfloor> = f")
  case True
  then show ?thesis
    using assms by (simp add: rne_def Let_def)
next
  case False
  have "\<lfloor>x\<rfloor> \<le> f"
    using assms by (simp add: floor_le_iff)
  with False have "\<lfloor>x\<rfloor> + 1 \<le> f"
    by simp
  then show ?thesis
    using rne_cases [of x] by auto
qed

lemma rne_up_half:
  assumes "rne x = \<lfloor>x\<rfloor> + 1"
  shows "of_int \<lfloor>x\<rfloor> + 1 / 2 \<le> x"
  using assms by (simp add: rne_def Let_def split: if_splits)

lemma round_real_below:
  assumes "0 < t" and "emin \<le> binade t" and "0 < p"
    and "t < round_real p emin t"
    and "0 \<le> z" and "z \<le> (1 - 1 / 2 ^ p) * round_real p emin t"
  shows "round_real p emin z \<le> t"
proof -
  let ?q = "quantum p emin t"
  let ?f = "\<lfloor>t / ?q\<rfloor>"
  let ?m = "rne (t / ?q)"
  have q: "?q = 2 powi (binade t - int p + 1)"
    using assms(2) by (simp add: quantum_def max_def)
  have w: "round_real p emin t = of_int ?m * ?q"
    by (simp add: round_real_def)
  have "t / ?q < of_int ?m"
    using assms(4) by (simp add: w pos_divide_less_eq)
  then have "?f < ?m"
    by (simp add: floor_less_iff)
  then have m: "?m = ?f + 1"
    using rne_cases [of "t / ?q"] by auto
  then have half: "of_int ?f + 1 / 2 \<le> t / ?q"
    by (rule rne_up_half)
  have "(2::real) powi binade t \<le> t"
    using binade_bounds(1) [of t] assms(1) by simp
  then have "2 powi binade t / ?q \<le> t / ?q"
    by (intro divide_right_mono) simp_all
  moreover have "2 powi binade t / ?q = (2::real) powi int (p - 1)"
    using assms(3) by (simp add: q of_nat_diff flip: power_int_diff)
  moreover have "(2::real) powi int (p - 1) = of_int (2 ^ (p - 1))"
    by simp
  ultimately have "of_int (2 ^ (p - 1)) \<le> t / ?q"
    by simp
  then have "2 ^ (p - 1) \<le> ?f"
    by (simp add: le_floor_iff)
  then have "(2::int) ^ (p - 1) < ?m"
    using m by simp
  then have "real_of_int (2 ^ (p - 1)) < of_int ?m"
    by (simp only: of_int_less_iff)
  then have M1: "(2::real) ^ (p - 1) < of_int ?m"
    by simp
  have P: "(2::real) ^ p = 2 * 2 ^ (p - 1)"
    using assms(3) by (metis Suc_pred' power_Suc)
  have "(2::real) ^ p < 2 * of_int ?m"
    using M1 P by linarith
  then have "1 / 2 < of_int ?m / (2::real) ^ p"
    by (simp add: field_simps)
  then have "(1 - 1 / 2 ^ p) * of_int ?m < of_int ?m - (1 / 2 :: real)"
    by (simp add: algebra_simps)
  then have "(1 - 1 / 2 ^ p) * of_int ?m * ?q < (of_int ?m - 1 / 2) * ?q"
    by (intro mult_strict_right_mono) simp_all
  then have zlt: "z < (of_int ?f + 1 / 2) * ?q"
    using assms(6) unfolding w m by (simp add: algebra_simps)
  have "(of_int ?f + 1 / 2) * ?q \<le> t"
    using half by (simp add: pos_le_divide_eq)
  then have zt: "z < t"
    using zlt by simp
  have ft: "of_int ?f * ?q \<le> t"
    by (simp add: flip: pos_le_divide_eq)
  show ?thesis
  proof (cases "z = 0")
    case True
    then show ?thesis
      using assms(1) by simp
  next
    case False
    then have zpos: "0 < z"
      using assms(5) by simp
    have "binade z \<le> binade t"
      using zpos zt assms(1) by (intro binade_mono) simp_all
    then have le: "max (binade z) emin \<le> binade t"
      using assms(2) by simp
    show ?thesis
    proof (cases "max (binade z) emin = binade t")
      case True
      then have qz: "quantum p emin z = ?q"
        by (simp add: quantum_def q)
      have "z / ?q < of_int ?f + 1 / 2"
        using zlt by (simp add: pos_divide_less_eq)
      then have "rne (z / ?q) \<le> ?f"
        by (rule rne_below_half)
      then have "round_real p emin z \<le> of_int ?f * ?q"
        unfolding round_real_def qz by (intro mult_right_mono) simp_all
      then show ?thesis
        using ft by simp
    next
      case False
      with le have lt: "max (binade z) emin + 1 \<le> binade t"
        by linarith
      have "round_real p emin z \<le> 2 powi (max (binade z) emin + 1)"
        using zpos by (rule round_real_upper)
      also have "\<dots> \<le> 2 powi binade t"
        using lt by (intro power_int_increasing) simp_all
      also have "\<dots> \<le> t"
        using binade_bounds(1) [of t] assms(1) by simp
      finally show ?thesis .
    qed
  qed
qed

lemma round_to_Fin:
  assumes "round_to p emin emax x = Fin y"
  shows "y = round_real p emin x" and "\<bar>round_real p emin x\<bar> < 2 powi (emax + 1)"
  using assms by (auto simp: round_to_def split: if_splits)

lemma round_to_finite:
  assumes "\<bar>round_real p emin x\<bar> < 2 powi (emax + 1)"
  shows "round_to p emin emax x = Fin (round_real p emin x)"
  using assms by (simp add: round_to_def)

lemma float_grid:
  assumes "round_to p emin emax a = Fin a"
  shows "\<exists>k::int. a = of_int k * 2 powi (emin - int p + 1)"
proof -
  let ?E = "max (binade a) emin"
  have a: "a = of_int (rne (a / quantum p emin a)) * quantum p emin a"
    using round_to_Fin(1) [OF assms] by (simp add: round_real_def)
  define n where "n = nat (?E - emin)"
  have n: "?E - int p + 1 = int n + (emin - int p + 1)"
    by (simp add: n_def)
  have "quantum p emin a = 2 powi (int n + (emin - int p + 1))"
    unfolding quantum_def by (simp only: n)
  also have "\<dots> = 2 powi int n * 2 powi (emin - int p + 1)"
    by (rule power_int_add) simp
  also have "\<dots> = of_int (2 ^ n) * 2 powi (emin - int p + 1)"
    by simp
  finally have "a = of_int (rne (a / quantum p emin a)) * (of_int (2 ^ n) * 2 powi (emin - int p + 1))"
    using a by (simp only:)
  then have "a = of_int (rne (a / quantum p emin a) * 2 ^ n) * 2 powi (emin - int p + 1)"
    by (simp add: mult.assoc)
  then show ?thesis ..
qed

lemma round_real_grid:
  assumes "t = of_int k * 2 powi (emin - int p + 1)" and "binade t < emin"
  shows "round_real p emin t = t"
proof -
  have "quantum p emin t = 2 powi (emin - int p + 1)"
    using assms(2) by (simp add: quantum_def max_def)
  then show ?thesis
    by (simp add: round_real_def assms(1))
qed

lemma draw_in_closed_interval:
  assumes p: "0 < p"
    and a: "round_to p emin emax a = Fin a" and b: "round_to p emin emax b = Fin b"
    and ab: "a < b"
    and w: "fsub (round_to p emin emax) (Fin b) (Fin a) \<noteq> PInf"
    and u: "0 \<le> u" "u \<le> 1 - 1 / 2 ^ p"
  shows "\<exists>x. fadd (round_to p emin emax) (Fin a)
                (fmul (round_to p emin emax) (Fin u)
                   (fsub (round_to p emin emax) (Fin b) (Fin a))) = Fin x \<and>
              a \<le> x \<and> x \<le> b"
proof -
  let ?r = "round_to p emin emax"
  let ?t = "b - a"
  have t: "0 < ?t"
    using ab by simp
  have sub: "fsub ?r (Fin b) (Fin a) = ?r ?t"
    by (simp add: fsub_def)
  have "fle (?r 0) (?r ?t)"
    using t p by (intro round_to_mono) simp_all
  then obtain w where rw: "?r ?t = Fin w" and w0: "0 \<le> w"
    using w sub by (cases "?r ?t") (simp_all add: round_to_def)
  have wr: "w = round_real p emin ?t" and wlt: "\<bar>w\<bar> < 2 powi (emax + 1)"
    using round_to_Fin [OF rw] by simp_all
  let ?z = "u * w"
  have z0: "0 \<le> ?z"
    using u(1) w0 by simp
  have u1: "u \<le> 1"
  proof -
    have "(0::real) \<le> 1 / 2 ^ p"
      by simp
    then show ?thesis
      using u(2) by linarith
  qed
  have zw: "?z \<le> w"
    using mult_right_mono [OF u1 w0] by simp
  have "\<exists>m. ?r ?z = Fin m \<and> 0 \<le> m \<and> m \<le> ?t"
  proof (cases "w \<le> ?t")
    case True
    then have "?z \<le> ?t"
      using zw by simp
    then have "fle (?r ?z) (?r ?t)"
      using p by (intro round_to_mono)
    moreover have "fle (?r 0) (?r ?z)"
      using z0 p by (intro round_to_mono)
    ultimately show ?thesis
      using rw True by (cases "?r ?z") (simp_all add: round_to_def)
  next
    case False
    then have lt: "?t < round_real p emin ?t"
      using wr by simp
    have e: "emin \<le> binade ?t"
    proof (rule ccontr)
      assume "\<not> emin \<le> binade ?t"
      then have s: "binade ?t < emin"
        by simp
      obtain ka kb :: int where "a = of_int ka * 2 powi (emin - int p + 1)"
        and "b = of_int kb * 2 powi (emin - int p + 1)"
        using float_grid [OF a] float_grid [OF b] by blast
      then have "?t = of_int (kb - ka) * 2 powi (emin - int p + 1)"
        by (simp add: algebra_simps)
      then have "round_real p emin ?t = ?t"
        using s by (rule round_real_grid)
      then show False
        using lt by simp
    qed
    have "?z \<le> (1 - 1 / 2 ^ p) * round_real p emin ?t"
      using u(2) w0 unfolding wr [symmetric] by (intro mult_right_mono)
    with t e p lt z0 have m: "round_real p emin ?z \<le> ?t"
      by (rule round_real_below)
    have n: "0 \<le> round_real p emin ?z"
      using z0 by (rule round_real_nonneg)
    have "?t < w"
      using False by simp
    then have "\<bar>round_real p emin ?z\<bar> < 2 powi (emax + 1)"
      using m n wlt by simp
    then have "?r ?z = Fin (round_real p emin ?z)"
      by (rule round_to_finite)
    then show ?thesis
      using m n by simp
  qed
  then obtain m where rz: "?r ?z = Fin m" and m: "0 \<le> m" "m \<le> ?t"
    by blast
  have "fle (?r a) (?r (a + m))" and "fle (?r (a + m)) (?r b)"
    using m p by (auto intro!: round_to_mono)
  then have "\<exists>x. ?r (a + m) = Fin x \<and> a \<le> x \<and> x \<le> b"
    unfolding a b by (cases "?r (a + m)") simp_all
  then show ?thesis
    by (simp add: sub rw rz)
qed

lemma float_below_1:
  assumes r: "round_to p emin emax r = Fin r" and "0 \<le> r" and "r < 1"
    and p: "0 < p" and e: "emin \<le> - 1"
  shows "r \<le> 1 - 1 / 2 ^ p"
proof (cases "r < 1 / 2")
  case True
  have "(2::real) ^ 1 \<le> 2 ^ p"
    using p by (intro power_increasing) simp_all
  then have "1 / (2::real) ^ p \<le> 1 / 2"
    by (simp add: field_simps)
  then show ?thesis
    using True by linarith
next
  case False
  then have "2 powi (- 1) \<le> \<bar>r\<bar>" and "\<bar>r\<bar> < 2 powi (- 1 + 1)"
    using assms(3) by simp_all
  then have "binade r = - 1"
    by (rule binade_eqI)
  then have q: "quantum p emin r = 2 powi (- int p)"
    using e by (simp add: quantum_def max_def)
  define m where "m = rne (r / quantum p emin r)"
  have q2: "quantum p emin r = 1 / 2 ^ p"
    unfolding q by (simp add: power_int_minus divide_inverse)
  have rm: "r = of_int m / 2 ^ p"
    using round_to_Fin(1) [OF r] by (simp add: round_real_def m_def q2)
  then have "real_of_int m = r * 2 ^ p"
    by simp
  moreover have "r * 2 ^ p < 1 * 2 ^ p"
    using assms(3) by (intro mult_strict_right_mono) simp_all
  ultimately have "real_of_int m < of_int (2 ^ p)"
    by simp
  then have "m < 2 ^ p"
    by (simp only: of_int_less_iff)
  then have "m \<le> 2 ^ p - 1"
    by simp
  then have "real_of_int m \<le> of_int (2 ^ p - 1)"
    by (simp only: of_int_le_iff)
  then have "real_of_int m / 2 ^ p \<le> (2 ^ p - 1) / 2 ^ p"
    by (intro divide_right_mono) simp_all
  then show ?thesis
    unfolding rm by (simp add: field_simps)
qed

lemma float64_below_1:
  "is_float64 r \<Longrightarrow> 0 \<le> r \<Longrightarrow> r < 1 \<Longrightarrow> r \<le> 1 - 1 / 2 ^ 53"
  using float_below_1 [of 53 "- 1022" 1023 r] by (simp add: is_float64_def)

lemma draw64_in_closed_interval:
  assumes "is_float64 a" and "is_float64 b" and "a < b"
    and "fsub (round64 ieee) (Fin b) (Fin a) \<noteq> PInf"
    and "is_float64 r" and "0 \<le> r" and "r < 1"
  shows "\<exists>x. fadd (round64 ieee) (Fin a)
                (fmul (round64 ieee) (Fin r) (fsub (round64 ieee) (Fin b) (Fin a))) = Fin x \<and>
              a \<le> x \<and> x \<le> b"
  using assms float64_below_1 [OF assms(5,6,7)] unfolding round_ieee is_float64_def
  by (intro draw_in_closed_interval) simp_all

section \<open>The error of a rounding\<close>

text \<open>
  In the normal range a rounding changes a number \<open>x\<close> by at most \<open>x / 2 ^ p\<close>. For the
  \<^verbatim>\<open>float32\<close> width \<open>d\<close> of a domain and the scale factor \<open>s\<close>, the rounded \<open>n / d\<close>,
  the product \<open>d * s\<close> therefore differs from \<open>n\<close> by at most \<open>n / 2 ^ 24\<close>.
\<close>

lemma rne_error: "\<bar>of_int (rne x) - x\<bar> \<le> 1 / 2"
proof -
  have "of_int \<lfloor>x\<rfloor> \<le> x" and "x < of_int \<lfloor>x\<rfloor> + 1"
    by linarith+
  then show ?thesis
    by (auto simp: rne_def Let_def)
qed

lemma binade_ge:
  assumes "x \<noteq> 0" and "2 powi e \<le> \<bar>x\<bar>"
  shows "e \<le> binade x"
proof (rule ccontr)
  assume "\<not> e \<le> binade x"
  then have "binade x + 1 \<le> e"
    by simp
  then have "(2::real) powi (binade x + 1) \<le> 2 powi e"
    by (intro power_int_increasing) simp_all
  then show False
    using binade_bounds(2) [OF assms(1)] assms(2) by simp
qed

lemma round_real_error:
  assumes "0 < x" and "emin \<le> binade x"
  shows "\<bar>round_real p emin x - x\<bar> \<le> x / 2 ^ p"
proof -
  let ?q = "quantum p emin x"
  have q: "?q = 2 powi binade x * 2 powi (1 - int p)"
    using assms(2) power_int_add [of "2::real" "binade x" "1 - int p"]
    by (simp add: quantum_def max_def algebra_simps)
  have "(2::real) powi (1 - int p) = 2 / 2 ^ p"
    using power_int_diff [of "2::real" 1 "int p"] by simp
  then have q2: "?q = 2 * (2 powi binade x / 2 ^ p)"
    using q by simp
  have "\<bar>of_int (rne (x / ?q)) - x / ?q\<bar> * ?q \<le> 1 / 2 * ?q"
    using rne_error by (intro mult_right_mono) simp_all
  moreover have "\<bar>of_int (rne (x / ?q)) - x / ?q\<bar> * ?q = \<bar>round_real p emin x - x\<bar>"
  proof -
    have "\<bar>of_int (rne (x / ?q)) - x / ?q\<bar> * ?q = \<bar>(of_int (rne (x / ?q)) - x / ?q) * ?q\<bar>"
      by (simp add: abs_mult)
    also have "(of_int (rne (x / ?q)) - x / ?q) * ?q = round_real p emin x - x"
      by (simp add: round_real_def algebra_simps)
    finally show ?thesis .
  qed
  ultimately have "\<bar>round_real p emin x - x\<bar> \<le> 2 powi binade x / 2 ^ p"
    using q2 by simp
  also have "\<dots> \<le> x / 2 ^ p"
    using binade_bounds(1) [of x] assms(1) by (intro divide_right_mono) simp_all
  finally show ?thesis .
qed

lemma scaled_back:
  assumes "0 < d" and "d < 2 powi 128" and "4 \<le> n"
  shows "\<bar>d * round_real 24 (- 126) (n / d) - n\<bar> \<le> n / 2 ^ 24"
proof -
  let ?x = "n / d"
  have x: "0 < ?x"
    using assms(1,3) by simp
  have a: "n / 2 powi 128 \<le> ?x"
    using assms by (intro divide_left_mono) simp_all
  have b: "(2::real) powi (- 126) \<le> n / 2 powi 128"
    using assms(3) by (simp add: power_int_minus field_simps)
  from b a have "2 powi (- 126) \<le> ?x"
    by (rule order_trans)
  then have "2 powi (- 126) \<le> \<bar>?x\<bar>"
    using x by (simp only: abs_of_pos)
  moreover have "?x \<noteq> 0"
    using x by (simp only: less_imp_neq [THEN not_sym] not_False_eq_True)
  ultimately have "- 126 \<le> binade ?x"
    by (intro binade_ge)
  with x have "\<bar>round_real 24 (- 126) ?x - ?x\<bar> \<le> ?x / 2 ^ 24"
    by (rule round_real_error)
  then have "d * \<bar>round_real 24 (- 126) ?x - ?x\<bar> \<le> d * (?x / 2 ^ 24)"
    using assms(1) by (intro mult_left_mono) simp_all
  moreover have "d * \<bar>round_real 24 (- 126) ?x - ?x\<bar> = \<bar>d * round_real 24 (- 126) ?x - n\<bar>"
  proof -
    have "d * \<bar>round_real 24 (- 126) ?x - ?x\<bar> = \<bar>d * (round_real 24 (- 126) ?x - ?x)\<bar>"
      using assms(1) by (simp add: abs_mult)
    also have "d * (round_real 24 (- 126) ?x - ?x) = d * round_real 24 (- 126) ?x - n"
      using assms(1) by (simp add: algebra_simps)
    finally show ?thesis .
  qed
  moreover have "d * (?x / 2 ^ 24) = n / 2 ^ 24"
    using assms(1) by simp
  ultimately show ?thesis
    by simp
qed

lemma positive_scale:
  assumes "fdiv (round32 ieee) (Fin n) (convert (round32 ieee) (fsub (round64 ieee) (Fin b) (Fin a))) = Fin s"
    and "0 < s" and "0 < n"
  shows "\<exists>d. convert (round32 ieee) (fsub (round64 ieee) (Fin b) (Fin a)) = Fin d \<and>
           0 < d \<and> d < 2 powi 128 \<and> s = round_real 24 (- 126) (n / d)"
proof (cases "convert (round32 ieee) (fsub (round64 ieee) (Fin b) (Fin a))")
  case (Fin d)
  have d0: "d \<noteq> 0"
    using assms(1,3) unfolding Fin by auto
  then have s: "round32 ieee (n / d) = Fin s"
    using assms(1) unfolding Fin by simp
  have "0 < d"
  proof (rule ccontr)
    assume "\<not> 0 < d"
    then have "n / d \<le> 0"
      using assms(3) by (simp add: divide_nonneg_nonpos divide_le_0_iff)
    then have "fle (round32 ieee (n / d)) (round32 ieee 0)"
      using monotone_round32 by (simp add: monotone_rounding_def)
    then show False
      using s assms(2) by (simp add: round_ieee)
  qed
  moreover have "d < 2 powi 128"
  proof -
    have "\<exists>w. round_to 24 (- 126) 127 w = Fin d"
      using Fin by (cases "fsub (round64 ieee) (Fin b) (Fin a)") (auto simp: round_ieee)
    then obtain w where "round_to 24 (- 126) 127 w = Fin d" ..
    from round_to_Fin [OF this] show ?thesis
      by simp
  qed
  moreover have "s = round_real 24 (- 126) (n / d)"
    using s round_to_Fin(1) by (simp add: round_ieee)
  ultimately show ?thesis
    using Fin by simp
next
  case PInf
  then show ?thesis
    using assms(1,2) by simp
next
  case NInf
  then show ?thesis
    using assms(1,2) by simp
next
  case NaN
  then show ?thesis
    using assms(1) by simp
qed

section \<open>The operations in closed form\<close>

declare GeneratePoints_loop.simps [simp del]

lemma GeneratePoints_loop_closed:
  "NumPoints (config pv) = int n \<Longrightarrow> length (points pv) = n \<Longrightarrow> n = i + k \<Longrightarrow>
   GeneratePoints_loop rd (int i) pv s =
     (pv\<lparr>points := take i (points pv) @ drawn rd (config pv) s k\<rparr>, sdrop (2 * k) s)"
proof (induction k arbitrary: i pv s)
  case 0
  then show ?case
    by (simp add: GeneratePoints_loop.simps [of rd "int i" pv s])
next
  case (Suc k)
  let ?p = "\<lparr>X = fadd (round64 rd) (MinX (config pv))
                   (fmul (round64 rd) (Fin (shd s))
                      (fsub (round64 rd) (MaxX (config pv)) (MinX (config pv)))),
             Y = fadd (round64 rd) (MinY (config pv))
                   (fmul (round64 rd) (Fin (shd (stl s)))
                      (fsub (round64 rd) (MaxY (config pv)) (MinY (config pv))))\<rparr>"
  let ?pv = "pv\<lparr>points := (points pv)[i := ?p]\<rparr>"
  have lt: "i < length (points pv)"
    using Suc.prems by simp
  have step: "GeneratePoints_loop rd (int i) pv s =
      GeneratePoints_loop rd (int (Suc i)) ?pv (stl (stl s))"
    using Suc.prems
    by (simp add: GeneratePoints_loop.simps [of rd "int i" pv s] Float64_def Let_def add.commute)
  have "GeneratePoints_loop rd (int (Suc i)) ?pv (stl (stl s)) =
          (?pv\<lparr>points := take (Suc i) (points ?pv) @ drawn rd (config ?pv) (stl (stl s)) k\<rparr>,
           sdrop (2 * k) (stl (stl s)))"
    using Suc.prems by (intro Suc.IH) simp_all
  moreover have "take (Suc i) (points ?pv) = take i (points pv) @ [?p]"
    using lt by (simp add: take_Suc_conv_app_nth)
  ultimately show ?case
    using step by simp
qed

text \<open>
  The allocation fails for a negative count and for one beyond \<^verbatim>\<open>maxAlloc\<close>, whatever the
  allocator does; the runtime of the examples allocates up to \<open>2 ^ 26\<close> points.
\<close>

lemma makeslice_None: "makeslice rt n = None \<Longrightarrow> 0 \<le> n"
  by (simp add: makeslice_def split: if_splits)

lemma makeslice_negative: "n < 0 \<Longrightarrow> makeslice rt n = Some MakesliceLenOutOfRange"
  by (simp add: makeslice_def)

lemma makeslice_too_large:
  "int (maxAlloc rt) < 16 * n \<Longrightarrow> makeslice rt n = Some MakesliceLenOutOfRange"
  by (simp add: makeslice_def)

lemma makeslice_roomy: "0 \<le> n \<Longrightarrow> n \<le> 2 ^ 26 \<Longrightarrow> makeslice roomy n = None"
  by (simp add: makeslice_def roomy_def)

lemma GeneratePoints_too_large:
  "int (maxAlloc rt) < 16 * NumPoints (config pv) \<Longrightarrow>
   GeneratePoints rd rt s pv = Inl (MakesliceLenOutOfRange, pv, s)"
  by (simp add: GeneratePoints_def makeslice_too_large)

lemma GeneratePoints_closed:
  assumes "makeslice rt (NumPoints (config pv)) = None"
  shows "GeneratePoints rd rt s pv =
           Inr (pv\<lparr>points := drawn rd (config pv) s (nat (NumPoints (config pv)))\<rparr>,
                sdrop (2 * nat (NumPoints (config pv))) s)"
proof -
  let ?n = "nat (NumPoints (config pv))"
  let ?pv = "pv\<lparr>points := replicate ?n \<lparr>X = Fin 0, Y = Fin 0\<rparr>\<rparr>"
  have n: "0 \<le> NumPoints (config pv)"
    using assms by (rule makeslice_None)
  have "GeneratePoints_loop rd (int 0) ?pv s =
          (?pv\<lparr>points := take 0 (points ?pv) @ drawn rd (config ?pv) s ?n\<rparr>, sdrop (2 * ?n) s)"
    using n by (intro GeneratePoints_loop_closed) simp_all
  then show ?thesis
    using n assms by (simp add: GeneratePoints_def)
qed

lemma length_drawn: "length (drawn rd c s n) = n"
  by (induction n arbitrary: s) simp_all

lemma drawn_cong:
  "MinX c = MinX c' \<Longrightarrow> MaxX c = MaxX c' \<Longrightarrow> MinY c = MinY c' \<Longrightarrow> MaxY c = MaxY c' \<Longrightarrow>
   drawn rd c s n = drawn rd c' s n"
  by (induction n arbitrary: s) simp_all

lemma add_points_closed:
  "add_points rd c sx sy ps (objs, pobjs) =
     (objs @ map (point_circle rd c sx sy) ps, pobjs @ map (point_circle rd c sx sy) ps)"
  by (induction ps arbitrary: objs pobjs) simp_all

lemma UpdateCanvas_closed:
  "canvas pv = Some objs \<Longrightarrow>
   UpdateCanvas rd pv =
     Inr (pv\<lparr>canvas := Some
               ([Rectangle (RGBA 248 249 250 255) None (Fin 0)
                   (CanvasWidth (config pv), CanvasHeight (config pv)),
                 Rectangle Transparent (Some (RGBA 200 200 200 255)) (Fin 2)
                   (CanvasWidth (config pv), CanvasHeight (config pv))] @
                map (point_circle rd (config pv) (scaleX rd (config pv)) (scaleY rd (config pv)))
                  (points pv)),
             pointObjects :=
               map (point_circle rd (config pv) (scaleX rd (config pv)) (scaleY rd (config pv)))
                 (points pv)\<rparr>)"
  by (simp add: UpdateCanvas_def Let_def add_points_closed)

lemma point_circle_spec:
  "point_circle rd c (scaleX rd c) (scaleY rd c) p =
     Circle (PointColor c) (toCanvas_spec rd p (domain_of c) (surface_of c) (PointSize c))
       (PointSize c, PointSize c)"
  by (simp add: point_circle_def toCanvas_spec_def scaleX_def scaleY_def domain_of_def
      surface_of_def padding_def Let_def)

lemma config_update_config:
  "NumPoints (update_config PF es c) = NumPoints c"
  "CanvasWidth (update_config PF es c) = CanvasWidth c"
  "CanvasHeight (update_config PF es c) = CanvasHeight c"
  "PointSize (update_config PF es c) = PointSize c"
  "PointColor (update_config PF es c) = PointColor c"
  by (simp_all add: update_config_def Let_def split: option.splits)

lemma update_config_fields:
  "update_config PF es c =
     c\<lparr>MinX := (case PF (xMinEntry es) of Some val \<Rightarrow> val | None \<Rightarrow> MinX c),
       MaxX := (case PF (xMaxEntry es) of Some val \<Rightarrow> val | None \<Rightarrow> MaxX c),
       MinY := (case PF (yMinEntry es) of Some val \<Rightarrow> val | None \<Rightarrow> MinY c),
       MaxY := (case PF (yMaxEntry es) of Some val \<Rightarrow> val | None \<Rightarrow> MaxY c)\<rparr>"
  by (simp add: update_config_def Let_def split: option.splits)

lemma generateBtn_closed:
  assumes "makeslice rt (NumPoints (config pv)) = None" and "canvas pv = Some objs"
  shows "\<exists>pv'. generateBtn rd rt PF es s pv = Inr (pv', sdrop (2 * nat (NumPoints (config pv))) s) \<and>
           config pv' = update_config PF es (config pv)"
proof -
  let ?pv = "pv\<lparr>config := update_config PF es (config pv)\<rparr>"
  let ?n = "nat (NumPoints (config pv))"
  have n: "makeslice rt (NumPoints (config ?pv)) = None"
    using assms(1) by (simp add: config_update_config)
  have g: "GeneratePoints rd rt s ?pv =
             Inr (?pv\<lparr>points := drawn rd (config ?pv) s ?n\<rparr>, sdrop (2 * ?n) s)"
    using GeneratePoints_closed [OF n, of rd s] by (simp add: config_update_config)
  have "canvas (?pv\<lparr>points := drawn rd (config ?pv) s ?n\<rparr>) = Some objs"
    using assms(2) by simp
  from UpdateCanvas_closed [OF this] g show ?thesis
    by (simp add: generateBtn_def)
qed

lemma config_state_after_generateBtn:
  "config (state_after (generateBtn rd rt PF es s pv)) = update_config PF es (config pv)"
proof (cases "makeslice rt (NumPoints (config pv))")
  case (Some p)
  then show ?thesis
    by (simp add: generateBtn_def GeneratePoints_def state_after_def config_update_config)
next
  case None
  let ?pv = "pv\<lparr>config := update_config PF es (config pv)\<rparr>"
  let ?n = "nat (NumPoints (config pv))"
  have n: "makeslice rt (NumPoints (config ?pv)) = None"
    using None by (simp add: config_update_config)
  have g: "GeneratePoints rd rt s ?pv =
             Inr (?pv\<lparr>points := drawn rd (config ?pv) s ?n\<rparr>, sdrop (2 * ?n) s)"
    using GeneratePoints_closed [OF n, of rd s] by (simp add: config_update_config)
  show ?thesis
  proof (cases "canvas pv")
    case None
    with g show ?thesis
      by (simp add: generateBtn_def UpdateCanvas_def state_after_def)
  next
    case (Some objs)
    then have "canvas (?pv\<lparr>points := drawn rd (config ?pv) s ?n\<rparr>) = Some objs"
      by simp
    from UpdateCanvas_closed [OF this] g show ?thesis
      by (simp add: generateBtn_def state_after_def)
  qed
qed

section \<open>The example states\<close>

lemma shd_halves: "shd halves = 1 / 2"
  by (simp add: halves_def)

lemma stl_halves: "stl halves = halves"
  by (simp add: halves_def)

lemma sdrop_halves: "sdrop n halves = halves"
  by (induction n) (simp_all add: stl_halves)

lemma sset_halves: "sset halves = {1 / 2}"
  by (simp add: halves_def)

lemma shd_nearly_ones: "shd nearly_ones = 9007199254740991 / 9007199254740992"
  by (simp add: nearly_ones_def)

lemma stl_nearly_ones: "stl nearly_ones = nearly_ones"
  by (simp add: nearly_ones_def)

lemma sdrop_nearly_ones: "sdrop n nearly_ones = nearly_ones"
  by (induction n) (simp_all add: stl_nearly_ones)

lemma config_started:
  "config started =
     \<lparr>NumPoints = 30, MinX = Fin 0, MaxX = Fin 100, MinY = Fin 0, MaxY = Fin 100,
      CanvasWidth = Fin 600, CanvasHeight = Fin 400, PointSize = Fin 6,
      PointColor = RGBA 70 130 255 255\<rparr>"
  by (simp add: started_def NewPointVisualizer_def)

lemma canvas_started: "canvas started = Some []"
  by (simp add: started_def)

section \<open>The generated points under IEEE rounding\<close>

lemma set_drawn_closed_range:
  assumes "MinX c = Fin a" "MaxX c = Fin b" "is_float64 a" "is_float64 b" "a < b"
    and "fsub (round64 ieee) (MaxX c) (MinX c) \<noteq> PInf"
    and "MinY c = Fin a'" "MaxY c = Fin b'" "is_float64 a'" "is_float64 b'" "a' < b'"
    and "fsub (round64 ieee) (MaxY c) (MinY c) \<noteq> PInf"
  shows "\<forall>r \<in> sset s. is_float64 r \<and> 0 \<le> r \<and> r < 1 \<Longrightarrow> p \<in> set (drawn ieee c s n) \<Longrightarrow>
    \<exists>x y. X p = Fin x \<and> Y p = Fin y \<and> a \<le> x \<and> x \<le> b \<and> a' \<le> y \<and> y \<le> b'"
proof (induction n arbitrary: s)
  case 0
  then show ?case by simp
next
  case (Suc n)
  have r1: "is_float64 (shd s)" "0 \<le> shd s" "shd s < 1"
    using Suc.prems(1) shd_sset by blast+
  have "shd (stl s) \<in> sset s"
    by (rule stl_sset [OF shd_sset])
  then have r2: "is_float64 (shd (stl s))" "0 \<le> shd (stl s)" "shd (stl s) < 1"
    using Suc.prems(1) by blast+
  have rest: "\<forall>r \<in> sset (stl (stl s)). is_float64 r \<and> 0 \<le> r \<and> r < 1"
  proof
    fix r
    assume "r \<in> sset (stl (stl s))"
    then have "r \<in> sset s"
      by (rule stl_sset [OF stl_sset])
    then show "is_float64 r \<and> 0 \<le> r \<and> r < 1"
      using Suc.prems(1) by blast
  qed
  obtain x where x: "fadd (round64 ieee) (Fin a)
       (fmul (round64 ieee) (Fin (shd s)) (fsub (round64 ieee) (Fin b) (Fin a))) = Fin x"
      "a \<le> x" "x \<le> b"
    using draw64_in_closed_interval [OF assms(3,4,5) _ r1] assms(1,2,6) by auto
  obtain y where y: "fadd (round64 ieee) (Fin a')
       (fmul (round64 ieee) (Fin (shd (stl s))) (fsub (round64 ieee) (Fin b') (Fin a'))) = Fin y"
      "a' \<le> y" "y \<le> b'"
    using draw64_in_closed_interval [OF assms(9,10,11) _ r2] assms(7,8,12) by auto
  from Suc.prems(2) consider "p = hd (drawn ieee c s (Suc n))" | "p \<in> set (drawn ieee c (stl (stl s)) n)"
    by auto
  then show ?case
  proof cases
    case 1
    then show ?thesis
      using x y assms(1,2,7,8) by simp
  next
    case 2
    then show ?thesis
      using Suc.IH [OF rest] by simp
  qed
qed

section \<open>A domain of zero extent\<close>

lemma set_drawn_X:
  "MinX c = Fin a \<Longrightarrow> MaxX c = Fin a \<Longrightarrow> is_float64 a \<Longrightarrow>
   p \<in> set (drawn ieee c s n) \<Longrightarrow> X p = Fin a"
  by (induction n arbitrary: s) (auto simp: fsub_def round_ieee is_float64_def)

lemma set_drawn_Y:
  "MinY c = Fin b \<Longrightarrow> MaxY c = Fin b \<Longrightarrow> is_float64 b \<Longrightarrow>
   p \<in> set (drawn ieee c s n) \<Longrightarrow> Y p = Fin b"
  by (induction n arbitrary: s) (auto simp: fsub_def round_ieee is_float64_def)

lemma scaleX_zero_width:
  "MinX c = Fin a \<Longrightarrow> MaxX c = Fin a \<Longrightarrow> CanvasWidth c = Fin 600 \<Longrightarrow> scaleX ieee c = PInf"
  by (simp add: scaleX_def padding_def fsub_def round_ieee round32_40 round32_560)

lemma scaleY_zero_height:
  "MinY c = Fin b \<Longrightarrow> MaxY c = Fin b \<Longrightarrow> CanvasHeight c = Fin 400 \<Longrightarrow> scaleY ieee c = PInf"
  by (simp add: scaleY_def padding_def fsub_def round_ieee round32_40 round32_360)

lemma point_circle_zero_width:
  "MinX c = Fin a \<Longrightarrow> X p = Fin a \<Longrightarrow>
   \<exists>cy. point_circle ieee c PInf sy p = Circle (PointColor c) (NaN, cy) (PointSize c, PointSize c)"
  by (simp add: point_circle_def padding_def fsub_def Let_def round_ieee)

lemma point_circle_zero_height:
  "MaxY c = Fin b \<Longrightarrow> Y p = Fin b \<Longrightarrow>
   \<exists>cx. point_circle ieee c sx PInf p = Circle (PointColor c) (cx, NaN) (PointSize c, PointSize c)"
  by (simp add: point_circle_def padding_def fsub_def Let_def round_ieee)

section \<open>The canvas position of a point under IEEE rounding\<close>

lemma canvasY_antitone:
  assumes "MaxY c = Fin b" and "Y p1 = Fin y1" and "Y p2 = Fin y2" and "y1 \<le> y2"
    and "sy = NaN \<or> fle (Fin 0) sy"
    and "point_circle ieee c sx sy p1 = Circle col1 (cx1, cy1) sz1"
    and "point_circle ieee c sx sy p2 = Circle col2 (cx2, cy2) sz2"
    and "cy1 \<noteq> NaN" and "cy2 \<noteq> NaN"
  shows "fle cy2 cy1"
proof -
  let ?r32 = "round32 ieee" and ?r64 = "round64 ieee"
  let ?half = "fdiv ?r32 (PointSize c) (Fin 2)"
  let ?d1 = "fsub ?r64 (MaxY c) (Y p1)" and ?d2 = "fsub ?r64 (MaxY c) (Y p2)"
  let ?m1 = "fmul ?r32 (convert ?r32 ?d1) sy" and ?m2 = "fmul ?r32 (convert ?r32 ?d2) sy"
  let ?a1 = "fadd ?r32 padding ?m1" and ?a2 = "fadd ?r32 padding ?m2"
  have cy: "cy1 = fsub ?r32 ?a1 ?half" "cy2 = fsub ?r32 ?a2 ?half"
    using assms(6,7) by (simp_all add: point_circle_def Let_def)
  have a: "?a1 \<noteq> NaN" "?a2 \<noteq> NaN"
    using assms(8,9) cy by auto
  then have m: "?m1 \<noteq> NaN" "?m2 \<noteq> NaN"
    by auto
  then have "sy \<noteq> NaN"
    by auto
  with assms(5) have sy: "fle (Fin 0) sy"
    by simp
  have "fle (?r64 (b - y2)) (?r64 (b - y1))"
    using monotone_round64 assms(4) by (simp add: monotone_rounding_def)
  then have "fle ?d2 ?d1"
    using assms(1,2,3) by (simp add: fsub_def)
  then have "fle (convert ?r32 ?d2) (convert ?r32 ?d1)"
    using monotone_round32 by (rule convert_mono [rotated])
  then have "fle ?m2 ?m1"
    using monotone_round32 sy m by (intro fmul_mono_left)
  then have "fle ?a2 ?a1"
    using monotone_round32 a by (intro fadd_mono_right)
  then have "fle (fsub ?r32 ?a2 ?half) (fsub ?r32 ?a1 ?half)"
    using monotone_round32 assms(8,9) cy by (intro fsub_mono_left) simp_all
  then show ?thesis
    by (simp add: cy)
qed

lemma canvasY_not_NaN:
  assumes "MaxY c = Fin b" and "Y p = Fin y" and "0 < s"
    and "PointSize c = Fin d" and "is_float32 d"
    and "point_circle ieee c sx (Fin s) p = Circle col (cx, cy) sz"
  shows "cy \<noteq> NaN"
proof -
  let ?r32 = "round32 ieee" and ?r64 = "round64 ieee"
  obtain h where h: "fdiv ?r32 (PointSize c) (Fin 2) = Fin h"
    using half_finite [OF assms(5)] assms(4) by auto
  have "fsub ?r64 (MaxY c) (Y p) \<noteq> NaN"
    using monotone_not_NaN [OF monotone_round64] assms(1,2) by (simp add: fsub_def)
  then have "convert ?r32 (fsub ?r64 (MaxY c) (Y p)) \<noteq> NaN"
    using monotone_round32 by (intro convert_not_NaN)
  then have "fmul ?r32 (convert ?r32 (fsub ?r64 (MaxY c) (Y p))) (Fin s) \<noteq> NaN"
    using monotone_round32 assms(3) by (intro fmul_pos_not_NaN)
  then have "fadd ?r32 padding (fmul ?r32 (convert ?r32 (fsub ?r64 (MaxY c) (Y p))) (Fin s)) \<noteq> NaN"
    using monotone_round32 unfolding padding_def by (intro fadd_Fin_not_NaN)
  then have "fsub ?r32
      (fadd ?r32 padding (fmul ?r32 (convert ?r32 (fsub ?r64 (MaxY c) (Y p))) (Fin s)))
      (Fin h) \<noteq> NaN"
    using monotone_round32 by (intro fsub_Fin_right_not_NaN)
  then show ?thesis
    using assms(6) h by (auto simp: point_circle_def Let_def)
qed

lemma scaled_width:
  assumes "fdiv (round32 ieee) (Fin n) (convert (round32 ieee) (fsub (round64 ieee) (Fin b) (Fin a))) = Fin s"
    and "0 < s" and "4 \<le> n"
  shows "fle (round32 ieee (n - n / 2 ^ 24))
           (fmul (round32 ieee) (convert (round32 ieee) (fsub (round64 ieee) (Fin b) (Fin a))) (Fin s))"
    and "fle (fmul (round32 ieee) (convert (round32 ieee) (fsub (round64 ieee) (Fin b) (Fin a))) (Fin s))
           (round32 ieee (n + n / 2 ^ 24))"
proof -
  have n: "0 < n"
    using assms(3) by simp
  obtain d where d: "convert (round32 ieee) (fsub (round64 ieee) (Fin b) (Fin a)) = Fin d"
      "0 < d" "d < 2 powi 128" "s = round_real 24 (- 126) (n / d)"
    using positive_scale [OF assms(1,2) n] by blast
  have "\<bar>d * s - n\<bar> \<le> n / 2 ^ 24"
    unfolding d(4) using d(2,3) assms(3) by (rule scaled_back)
  then have "n - n / 2 ^ 24 \<le> d * s" and "d * s \<le> n + n / 2 ^ 24"
    by linarith+
  then have "fle (round32 ieee (n - n / 2 ^ 24)) (round32 ieee (d * s))"
    and "fle (round32 ieee (d * s)) (round32 ieee (n + n / 2 ^ 24))"
    using monotone_round32 by (simp_all add: monotone_rounding_def)
  then show "fle (round32 ieee (n - n / 2 ^ 24))
           (fmul (round32 ieee) (convert (round32 ieee) (fsub (round64 ieee) (Fin b) (Fin a))) (Fin s))"
    and "fle (fmul (round32 ieee) (convert (round32 ieee) (fsub (round64 ieee) (Fin b) (Fin a))) (Fin s))
           (round32 ieee (n + n / 2 ^ 24))"
    by (simp_all add: d(1))
qed

lemma padded_between:
  assumes "fle (Fin 0) m" and "fle m u"
  shows "fle (Fin 20) (fadd (round32 ieee) padding m)"
    and "fle (fadd (round32 ieee) padding m) (fadd (round32 ieee) (Fin 20) u)"
proof -
  have n: "m \<noteq> NaN" "u \<noteq> NaN"
    using assms fle_not_NaN by blast+
  have "fle (fadd (round32 ieee) (Fin 20) (Fin 0)) (fadd (round32 ieee) (Fin 20) m)"
    using monotone_round32 assms(1) n fadd_Fin_not_NaN [OF monotone_round32]
    by (intro fadd_mono_right) (simp_all add: round_ieee round32_20)
  then show "fle (Fin 20) (fadd (round32 ieee) padding m)"
    by (simp add: padding_def round_ieee round32_20)
  show "fle (fadd (round32 ieee) padding m) (fadd (round32 ieee) (Fin 20) u)"
    unfolding padding_def
    using monotone_round32 assms(2) n fadd_Fin_not_NaN [OF monotone_round32]
    by (intro fadd_mono_right) simp_all
qed

lemma corner_position:
  assumes "fdiv (round32 ieee) (Fin n) (convert (round32 ieee) (fsub (round64 ieee) (Fin b) (Fin a))) = Fin s"
    and "0 < s" and "4 \<le> n" and "t = fsub (round64 ieee) (Fin b) (Fin a) \<or> t = Fin 0"
  shows "fle (Fin 20) (fadd (round32 ieee) padding (fmul (round32 ieee) (convert (round32 ieee) t) (Fin s)))"
    and "fle (fadd (round32 ieee) padding (fmul (round32 ieee) (convert (round32 ieee) t) (Fin s)))
           (fadd (round32 ieee) (Fin 20) (round32 ieee (n + n / 2 ^ 24)))"
proof -
  let ?m = "fmul (round32 ieee) (convert (round32 ieee) t) (Fin s)"
  have lo: "fle (Fin 0) (round32 ieee (n - n / 2 ^ 24))"
  proof -
    have "n / 2 ^ 24 \<le> n / 1"
      using assms(3) by (intro divide_left_mono) simp_all
    then have "0 \<le> n - n / 2 ^ 24"
      by simp
    then show ?thesis
      by (rule round_ieee_nonneg)
  qed
  have hi: "fle (Fin 0) (round32 ieee (n + n / 2 ^ 24))"
    using assms(3) by (intro round_ieee_nonneg) simp
  have "fle (Fin 0) ?m \<and> fle ?m (round32 ieee (n + n / 2 ^ 24))"
    using assms(4)
  proof
    assume "t = fsub (round64 ieee) (Fin b) (Fin a)"
    then show ?thesis
      using scaled_width [OF assms(1,2,3)] lo fle_trans by blast
  next
    assume "t = Fin 0"
    then show ?thesis
      using hi by (simp add: round_ieee)
  qed
  then show "fle (Fin 20) (fadd (round32 ieee) padding ?m)"
    and "fle (fadd (round32 ieee) padding ?m)
           (fadd (round32 ieee) (Fin 20) (round32 ieee (n + n / 2 ^ 24)))"
    using padded_between by blast+
qed

lemma offset_between:
  assumes "fle lo v" and "fle v hi"
  shows "fle (fsub (round32 ieee) lo (Fin h)) (fsub (round32 ieee) v (Fin h))"
    and "fle (fsub (round32 ieee) v (Fin h)) (fsub (round32 ieee) hi (Fin h))"
proof -
  have "lo \<noteq> NaN" "v \<noteq> NaN" "hi \<noteq> NaN"
    using assms fle_not_NaN by blast+
  then have "fsub (round32 ieee) lo (Fin h) \<noteq> NaN" "fsub (round32 ieee) v (Fin h) \<noteq> NaN"
    "fsub (round32 ieee) hi (Fin h) \<noteq> NaN"
    using fsub_Fin_right_not_NaN [OF monotone_round32] by blast+
  then show "fle (fsub (round32 ieee) lo (Fin h)) (fsub (round32 ieee) v (Fin h))"
    and "fle (fsub (round32 ieee) v (Fin h)) (fsub (round32 ieee) hi (Fin h))"
    using assms monotone_round32 by (auto intro!: fsub_mono_left)
qed

lemma self_difference: "fsub (round64 ieee) (Fin a) (Fin a) = Fin 0"
  by (simp add: fsub_def round_ieee)

lemma corner_circle:
  assumes "MinX c = Fin a" and "MaxX c = Fin b"
    and "fsub (round32 ieee) (CanvasWidth c) (fmul (round32 ieee) (Fin 2) padding) = Fin nx"
    and "4 \<le> nx" and "scaleX ieee c = Fin sx" and "0 < sx" and "x = a \<or> x = b"
    and "MinY c = Fin a'" and "MaxY c = Fin b'"
    and "fsub (round32 ieee) (CanvasHeight c) (fmul (round32 ieee) (Fin 2) padding) = Fin ny"
    and "4 \<le> ny" and "scaleY ieee c = Fin sy" and "0 < sy" and "y = a' \<or> y = b'"
    and "PointSize c = Fin d" and "is_float32 d"
  shows "\<exists>cx cy. point_circle ieee c (scaleX ieee c) (scaleY ieee c) \<lparr>X = Fin x, Y = Fin y\<rparr> =
           Circle (PointColor c) (cx, cy) (Fin d, Fin d) \<and>
         fle (fsub (round32 ieee) (Fin 20) (fdiv (round32 ieee) (Fin d) (Fin 2))) cx \<and>
         fle cx (fsub (round32 ieee)
                   (fadd (round32 ieee) (Fin 20) (round32 ieee (nx + nx / 2 ^ 24)))
                   (fdiv (round32 ieee) (Fin d) (Fin 2))) \<and>
         fle (fsub (round32 ieee) (Fin 20) (fdiv (round32 ieee) (Fin d) (Fin 2))) cy \<and>
         fle cy (fsub (round32 ieee)
                   (fadd (round32 ieee) (Fin 20) (round32 ieee (ny + ny / 2 ^ 24)))
                   (fdiv (round32 ieee) (Fin d) (Fin 2)))"
proof -
  obtain h where h: "fdiv (round32 ieee) (Fin d) (Fin 2) = Fin h"
    using half_finite [OF assms(16)] by blast
  let ?tx = "fsub (round64 ieee) (Fin x) (MinX c)" and ?ty = "fsub (round64 ieee) (MaxY c) (Fin y)"
  let ?px = "fadd (round32 ieee) padding (fmul (round32 ieee) (convert (round32 ieee) ?tx) (Fin sx))"
  let ?py = "fadd (round32 ieee) padding (fmul (round32 ieee) (convert (round32 ieee) ?ty) (Fin sy))"
  have sx: "fdiv (round32 ieee) (Fin nx)
      (convert (round32 ieee) (fsub (round64 ieee) (Fin b) (Fin a))) = Fin sx"
    using assms(1,2,3,5) by (simp add: scaleX_def)
  have sy: "fdiv (round32 ieee) (Fin ny)
      (convert (round32 ieee) (fsub (round64 ieee) (Fin b') (Fin a'))) = Fin sy"
    using assms(8,9,10,12) by (simp add: scaleY_def)
  have tx: "?tx = fsub (round64 ieee) (Fin b) (Fin a) \<or> ?tx = Fin 0"
    using assms(1,7) self_difference by auto
  have ty: "?ty = fsub (round64 ieee) (Fin b') (Fin a') \<or> ?ty = Fin 0"
    using assms(9,14) self_difference by auto
  note bx = corner_position [OF sx assms(6,4) tx]
  note by' = corner_position [OF sy assms(13,11) ty]
  have "point_circle ieee c (scaleX ieee c) (scaleY ieee c) \<lparr>X = Fin x, Y = Fin y\<rparr> =
      Circle (PointColor c) (fsub (round32 ieee) ?px (Fin h), fsub (round32 ieee) ?py (Fin h))
        (Fin d, Fin d)"
    using assms(5,12,15) h by (simp add: point_circle_def Let_def)
  then show ?thesis
    using offset_between [OF bx] offset_between [OF by'] h by simp
qed

section \<open>The generated points\<close>

text \<open>
  Claim C1, as stated: for every domain with \<open>minX < maxX\<close> and \<open>minY < maxY\<close> each
  generated point has x in the half-open \<open>[minX, maxX)\<close> and y in \<open>[minY, maxY)\<close>. With
  the domain from 1 to 2 on both axes, one point and the draw \<open>1 - 1 / 2 ^ 53\<close>, the exact
  sum \<open>2 - 1 / 2 ^ 53\<close> lies half way between two \<^verbatim>\<open>float64\<close> values and is rounded to
  2: the point is \<open>(2, 2)\<close>, on the excluded bounds.
\<close>

theorem rounded_draw_reaches_bound:
  "GeneratePoints ieee roomy nearly_ones
     (started\<lparr>config := (config started)
        \<lparr>NumPoints := 1, MinX := Fin 1, MaxX := Fin 2, MinY := Fin 1, MaxY := Fin 2\<rparr>\<rparr>) =
   Inr (started\<lparr>config := (config started)
          \<lparr>NumPoints := 1, MinX := Fin 1, MaxX := Fin 2, MinY := Fin 1, MaxY := Fin 2\<rparr>,
                points := [\<lparr>X = Fin 2, Y = Fin 2\<rparr>]\<rparr>,
        nearly_ones)"
  by (simp add: GeneratePoints_closed makeslice_roomy config_started sdrop_nearly_ones
      shd_nearly_ones stl_nearly_ones fsub_def round_ieee round64_1 round64_nearly_one
      round64_tie_below_2)

text \<open>
  Claim C1, amended: for every domain and every count \<open>n\<close> for which the allocation
  \<^verbatim>\<open>make([]Point, n)\<close> succeeds (\<open>n \<ge> 0\<close>, the \<open>n\<close> points within \<^verbatim>\<open>maxAlloc\<close>, and the
  allocator providing the block) the generator returns an ordered sequence of exactly
  \<open>n\<close> points, the empty one for \<open>n = 0\<close>, whatever the rounding. When moreover the bounds
  are finite \<^verbatim>\<open>float64\<close> numbers with \<open>minX < maxX\<close> and \<open>minY < maxY\<close>, the differences
  \<^verbatim>\<open>MaxX - MinX\<close> and \<^verbatim>\<open>MaxY - MinY\<close> do not overflow, and the draws are \<^verbatim>\<open>float64\<close> numbers
  in \<open>[0, 1)\<close> (as \<^verbatim>\<open>rand.Float64\<close> promises), each point has, under IEEE rounding, x in
  the closed interval \<open>[minX, maxX]\<close> and y in \<open>[minY, maxY]\<close>: the upper bound can be
  reached and is never passed.
\<close>

theorem generated_points_in_domain:
  "makeslice rt (NumPoints (config pv)) = None \<Longrightarrow>
   (\<exists>pv' s'. GeneratePoints rd rt s pv = Inr (pv', s') \<and>
      length (points pv') = nat (NumPoints (config pv)) \<and>
      (NumPoints (config pv) = 0 \<longrightarrow> points pv' = [])) \<and>
   (MinX (config pv) = Fin a \<and> MaxX (config pv) = Fin b \<and>
    is_float64 a \<and> is_float64 b \<and> a < b \<and>
    fsub (round64 ieee) (MaxX (config pv)) (MinX (config pv)) \<noteq> PInf \<and>
    MinY (config pv) = Fin a' \<and> MaxY (config pv) = Fin b' \<and>
    is_float64 a' \<and> is_float64 b' \<and> a' < b' \<and>
    fsub (round64 ieee) (MaxY (config pv)) (MinY (config pv)) \<noteq> PInf \<and>
    (\<forall>r \<in> sset s. is_float64 r \<and> 0 \<le> r \<and> r < 1) \<longrightarrow>
      (\<exists>pv' s'. GeneratePoints ieee rt s pv = Inr (pv', s') \<and>
         (\<forall>p \<in> set (points pv').
            \<exists>x y. X p = Fin x \<and> Y p = Fin y \<and> a \<le> x \<and> x \<le> b \<and> a' \<le> y \<and> y \<le> b')))"
proof (intro conjI impI)
  assume n: "makeslice rt (NumPoints (config pv)) = None"
  then show "\<exists>pv' s'. GeneratePoints rd rt s pv = Inr (pv', s') \<and>
      length (points pv') = nat (NumPoints (config pv)) \<and>
      (NumPoints (config pv) = 0 \<longrightarrow> points pv' = [])"
    by (simp add: GeneratePoints_closed length_drawn)
  assume "MinX (config pv) = Fin a \<and> MaxX (config pv) = Fin b \<and>
    is_float64 a \<and> is_float64 b \<and> a < b \<and>
    fsub (round64 ieee) (MaxX (config pv)) (MinX (config pv)) \<noteq> PInf \<and>
    MinY (config pv) = Fin a' \<and> MaxY (config pv) = Fin b' \<and>
    is_float64 a' \<and> is_float64 b' \<and> a' < b' \<and>
    fsub (round64 ieee) (MaxY (config pv)) (MinY (config pv)) \<noteq> PInf \<and>
    (\<forall>r \<in> sset s. is_float64 r \<and> 0 \<le> r \<and> r < 1)"
  then have d: "MinX (config pv) = Fin a" "MaxX (config pv) = Fin b"
    "is_float64 a" "is_float64 b" "a < b"
    "fsub (round64 ieee) (MaxX (config pv)) (MinX (config pv)) \<noteq> PInf"
    "MinY (config pv) = Fin a'" "MaxY (config pv) = Fin b'"
    "is_float64 a'" "is_float64 b'" "a' < b'"
    "fsub (round64 ieee) (MaxY (config pv)) (MinY (config pv)) \<noteq> PInf"
    and u: "\<forall>r \<in> sset s. is_float64 r \<and> 0 \<le> r \<and> r < 1"
    by blast+
  let ?ps = "drawn ieee (config pv) s (nat (NumPoints (config pv)))"
  have "\<forall>p \<in> set ?ps.
        \<exists>x y. X p = Fin x \<and> Y p = Fin y \<and> a \<le> x \<and> x \<le> b \<and> a' \<le> y \<and> y \<le> b'"
    using set_drawn_closed_range [OF d u] by blast
  then show "\<exists>pv' s'. GeneratePoints ieee rt s pv = Inr (pv', s') \<and>
         (\<forall>p \<in> set (points pv').
            \<exists>x y. X p = Fin x \<and> Y p = Fin y \<and> a \<le> x \<and> x \<le> b \<and> a' \<le> y \<and> y \<le> b')"
    using n by (simp add: GeneratePoints_closed)
qed

theorem generated_points_in_domain_witness:
  "makeslice roomy (NumPoints (config started)) = None \<and>
   sset halves = {1 / 2} \<and> is_float64 (1 / 2) \<and> is_float64 0 \<and> is_float64 100 \<and>
   fsub (round64 ieee) (MaxX (config started)) (MinX (config started)) = Fin 100 \<and>
   fsub (round64 ieee) (MaxY (config started)) (MinY (config started)) = Fin 100 \<and>
   (\<exists>pv' s'. GeneratePoints ieee roomy halves started = Inr (pv', s') \<and>
      length (points pv') = 30) \<and>
   (\<exists>pv' s'. GeneratePoints ieee roomy halves started = Inr (pv', s') \<and>
      list_all (\<lambda>p. \<exists>x y. X p = Fin x \<and> Y p = Fin y \<and> 0 \<le> x \<and> x \<le> 100 \<and> 0 \<le> y \<and> y \<le> 100)
        (points pv'))"
  using generated_points_in_domain [of roomy started ieee halves 0 100 0 100]
  by (simp add: config_started sset_halves list_all_iff is_float64_def fsub_def round_ieee
      round64_100 round64_half makeslice_roomy)

section \<open>An invalid domain\<close>

text \<open>
  Claim C3, as the specification has it: with \<open>minX \<ge> maxX\<close> or \<open>minY \<ge> maxY\<close> the
  generator fails with \<^verbatim>\<open>InvalidDomain\<close> and produces no point set. The program does not
  look at the domain. With the specification's own example, \<open>minX = maxX = 0\<close> and Y from
  0 to 100, one point and the source \<open>halves\<close>, generation succeeds and the new point set
  holds the point \<open>(0, 50)\<close>.
\<close>

theorem invalid_domain_generates_example:
  "GeneratePoints ieee roomy halves
     (started\<lparr>config := (config started)\<lparr>NumPoints := 1, MaxX := Fin 0\<rparr>\<rparr>) =
   Inr (started\<lparr>config := (config started)\<lparr>NumPoints := 1, MaxX := Fin 0\<rparr>,
                points := [\<lparr>X = Fin 0, Y = Fin 50\<rparr>]\<rparr>,
        halves)"
  by (simp add: GeneratePoints_closed makeslice_roomy config_started sdrop_halves shd_halves
      stl_halves fsub_def round_ieee round64_100 round64_50)

text \<open>
  Claim C3, amended: the generator does not validate the domain. For every domain, also
  one with \<open>minX \<ge> maxX\<close> or \<open>minY \<ge> maxY\<close>, and every count \<open>n\<close> for which the allocation
  \<^verbatim>\<open>make([]Point, n)\<close> succeeds, it succeeds: it replaces the point set by \<open>n\<close> new points,
  uses up \<open>2 n\<close> draws of the source, and leaves the configuration, the container and the
  drawn objects as they were.
\<close>

theorem generator_ignores_domain:
  "makeslice rt (NumPoints (config pv)) = None \<Longrightarrow>
   \<exists>pv'. GeneratePoints rd rt s pv = Inr (pv', sdrop (2 * nat (NumPoints (config pv))) s) \<and>
     length (points pv') = nat (NumPoints (config pv)) \<and>
     config pv' = config pv \<and> canvas pv' = canvas pv \<and> pointObjects pv' = pointObjects pv"
  by (simp add: GeneratePoints_closed length_drawn)

theorem generator_ignores_domain_witness:
  "makeslice roomy
     (NumPoints (config (started\<lparr>config := (config started)\<lparr>MinX := Fin 3, MaxX := Fin 0\<rparr>\<rparr>))) = None \<and>
   (\<exists>pv'. GeneratePoints ieee roomy halves
             (started\<lparr>config := (config started)\<lparr>MinX := Fin 3, MaxX := Fin 0\<rparr>\<rparr>) =
            Inr (pv', halves) \<and>
      length (points pv') = 30 \<and>
      config pv' = (config started)\<lparr>MinX := Fin 3, MaxX := Fin 0\<rparr>)"
  using generator_ignores_domain
    [of roomy "started\<lparr>config := (config started)\<lparr>MinX := Fin 3, MaxX := Fin 0\<rparr>\<rparr>" ieee halves]
  by (auto simp: config_started sdrop_halves makeslice_roomy)

section \<open>A domain of zero width\<close>

text \<open>
  Claim C10, as stated: for every configuration with \<^verbatim>\<open>MinX = MaxX\<close> all generated points
  have X exactly \<^verbatim>\<open>MinX\<close>. The bounds are \<^verbatim>\<open>float64\<close> values, and the entries accept the
  text \<^verbatim>\<open>Inf\<close>: with \<^verbatim>\<open>MinX = MaxX = +Inf\<close> the width \<^verbatim>\<open>MaxX - MinX\<close> is not zero but NaN,
  and so is X.
\<close>

theorem infinite_degenerate_domain_example:
  "GeneratePoints ieee roomy halves
     (started\<lparr>config := (config started)\<lparr>NumPoints := 1, MinX := PInf, MaxX := PInf\<rparr>\<rparr>) =
   Inr (started\<lparr>config := (config started)\<lparr>NumPoints := 1, MinX := PInf, MaxX := PInf\<rparr>,
                points := [\<lparr>X = NaN, Y = Fin 50\<rparr>]\<rparr>,
        halves)"
  by (simp add: GeneratePoints_closed makeslice_roomy config_started sdrop_halves shd_halves
      stl_halves fsub_def round_ieee round64_100 round64_50)

text \<open>
  Claim C10, amended: for every configuration and every count \<open>n\<close> for which the
  allocation \<^verbatim>\<open>make([]Point, n)\<close> succeeds the generator succeeds and returns \<open>n\<close> points;
  when \<^verbatim>\<open>MinX\<close> and \<^verbatim>\<open>MaxX\<close> are the same finite \<^verbatim>\<open>float64\<close> number, every point has X
  exactly \<^verbatim>\<open>MinX\<close>, and when \<^verbatim>\<open>MinY\<close> and \<^verbatim>\<open>MaxY\<close> are the same finite \<^verbatim>\<open>float64\<close> number,
  every point has Y exactly \<^verbatim>\<open>MinY\<close>.
\<close>

theorem degenerate_domain_collapses:
  "makeslice rt (NumPoints (config pv)) = None \<Longrightarrow>
   \<exists>pv' s'. GeneratePoints ieee rt s pv = Inr (pv', s') \<and>
     length (points pv') = nat (NumPoints (config pv)) \<and>
     (MinX (config pv) = Fin a \<and> MaxX (config pv) = Fin a \<and> is_float64 a \<longrightarrow>
        (\<forall>p \<in> set (points pv'). X p = Fin a)) \<and>
     (MinY (config pv) = Fin b \<and> MaxY (config pv) = Fin b \<and> is_float64 b \<longrightarrow>
        (\<forall>p \<in> set (points pv'). Y p = Fin b))"
  by (auto simp: GeneratePoints_closed length_drawn set_drawn_X set_drawn_Y)

theorem degenerate_domain_collapses_witness:
  "makeslice roomy
     (NumPoints (config (started\<lparr>config := (config started)\<lparr>MinX := Fin 7, MaxX := Fin 7\<rparr>\<rparr>))) = None \<and>
   MinX (config (started\<lparr>config := (config started)\<lparr>MinX := Fin 7, MaxX := Fin 7\<rparr>\<rparr>)) = Fin 7 \<and>
   MaxX (config (started\<lparr>config := (config started)\<lparr>MinX := Fin 7, MaxX := Fin 7\<rparr>\<rparr>)) = Fin 7 \<and>
   is_float64 7 \<and>
   (\<exists>pv' s'. GeneratePoints ieee roomy halves
                  (started\<lparr>config := (config started)\<lparr>MinX := Fin 7, MaxX := Fin 7\<rparr>\<rparr>) = Inr (pv', s') \<and>
      length (points pv') = 30 \<and> list_all (\<lambda>p. X p = Fin 7) (points pv'))"
  using degenerate_domain_collapses
    [of roomy "started\<lparr>config := (config started)\<lparr>MinX := Fin 7, MaxX := Fin 7\<rparr>\<rparr>" halves 7 0]
  by (auto simp: config_started list_all_iff is_float64_def round64_7 makeslice_roomy)

section \<open>Determinism of the generator\<close>

text \<open>
  Claim C4: two calls of the generator under the same domain and the same count, each
  from the same state of the random source (as after identical seeding), produce the
  same point sequence, in length, order and values, and leave the source in the same
  state; whatever else differs between the two visualizers (former points, style, canvas)
  has no influence. A count for which the allocation fails makes both calls fail alike.
\<close>

theorem generator_deterministic:
  "NumPoints (config pv1) = NumPoints (config pv2) \<Longrightarrow>
   MinX (config pv1) = MinX (config pv2) \<Longrightarrow> MaxX (config pv1) = MaxX (config pv2) \<Longrightarrow>
   MinY (config pv1) = MinY (config pv2) \<Longrightarrow> MaxY (config pv1) = MaxY (config pv2) \<Longrightarrow>
   map_sum (\<lambda>(e, pv, s'). (e, s')) (\<lambda>(pv, s'). (points pv, s')) (GeneratePoints rd rt s pv1) =
   map_sum (\<lambda>(e, pv, s'). (e, s')) (\<lambda>(pv, s'). (points pv, s')) (GeneratePoints rd rt s pv2)"
proof (cases "makeslice rt (NumPoints (config pv1))")
  case (Some p)
  assume "NumPoints (config pv1) = NumPoints (config pv2)"
  with Some show ?thesis
    by (simp add: GeneratePoints_def)
next
  case None
  assume n: "NumPoints (config pv1) = NumPoints (config pv2)"
    and d: "MinX (config pv1) = MinX (config pv2)" "MaxX (config pv1) = MaxX (config pv2)"
      "MinY (config pv1) = MinY (config pv2)" "MaxY (config pv1) = MaxY (config pv2)"
  have "drawn rd (config pv1) s (nat (NumPoints (config pv2))) =
        drawn rd (config pv2) s (nat (NumPoints (config pv2)))"
    using d by (rule drawn_cong)
  with None n show ?thesis
    by (simp add: GeneratePoints_closed)
qed

theorem generator_deterministic_witness:
  "map_sum (\<lambda>(e, pv, s'). (e, s')) (\<lambda>(pv, s'). (points pv, s'))
     (GeneratePoints ieee roomy halves started) =
   map_sum (\<lambda>(e, pv, s'). (e, s')) (\<lambda>(pv, s'). (points pv, s'))
     (GeneratePoints ieee roomy halves
        (started\<lparr>config := (config started)\<lparr>PointSize := Fin 9, PointColor := RGBA 255 99 71 255\<rparr>,
                 points := [\<lparr>X = Fin 1, Y = Fin 2\<rparr>], canvas := None\<rparr>))"
  using generator_deterministic
    [of started
        "started\<lparr>config := (config started)\<lparr>PointSize := Fin 9, PointColor := RGBA 255 99 71 255\<rparr>,
                 points := [\<lparr>X = Fin 1, Y = Fin 2\<rparr>], canvas := None\<rparr>"
        ieee roomy halves]
  by simp

section \<open>A negative point count\<close>

text \<open>
  Claim C9, as the specification has it: a negative point count is rejected with an
  \<^verbatim>\<open>InvalidCount\<close> error and the generator does not panic. The program has no such
  test. With \<^verbatim>\<open>NumPoints = -1\<close> the allocation \<^verbatim>\<open>make([]Point, -1)\<close> panics.
\<close>

theorem negative_count_panics_example:
  "GeneratePoints ieee roomy halves (started\<lparr>config := (config started)\<lparr>NumPoints := - 1\<rparr>\<rparr>) =
     Inl (MakesliceLenOutOfRange, started\<lparr>config := (config started)\<lparr>NumPoints := - 1\<rparr>\<rparr>, halves)"
  by (simp add: GeneratePoints_def makeslice_negative)

text \<open>
  Claim C9, amended: for every negative point count \<^verbatim>\<open>GeneratePoints\<close> panics in the
  allocation of the slice, before it has written anything: the visualizer, with its
  configuration and its former points, and the random source are as they were, and no
  point set is produced.
\<close>

theorem negative_count_panics:
  "NumPoints (config pv) < 0 \<Longrightarrow> GeneratePoints rd rt s pv = Inl (MakesliceLenOutOfRange, pv, s)"
  by (simp add: GeneratePoints_def makeslice_negative)

theorem negative_count_panics_witness:
  "NumPoints (config (started\<lparr>config := (config started)\<lparr>NumPoints := - 5\<rparr>\<rparr>)) < 0 \<and>
   GeneratePoints ieee roomy halves (started\<lparr>config := (config started)\<lparr>NumPoints := - 5\<rparr>\<rparr>) =
     Inl (MakesliceLenOutOfRange, started\<lparr>config := (config started)\<lparr>NumPoints := - 5\<rparr>\<rparr>, halves)"
  using negative_count_panics
    [of "started\<lparr>config := (config started)\<lparr>NumPoints := - 5\<rparr>\<rparr>" ieee roomy halves]
  by simp

section \<open>The coordinate mapper\<close>

text \<open>
  Claim C2: for every point the mapper computes the scale factors
  \<open>(width - 2 padding) / (maxX - minX)\<close> and \<open>(height - 2 padding) / (maxY - minY)\<close>, then
  \<open>px = padding + (x - minX) * scaleX\<close> and the inverted \<open>py = padding + (maxY - y) * scaleY\<close>,
  each less half the point size: whatever the rounding, the circles that \<^verbatim>\<open>UpdateCanvas\<close>
  draws are placed where the specification's \<^verbatim>\<open>toCanvas\<close> says, with padding 20. For the
  domain from 0 to 100 on both axes and a surface of 600 by 400 the point \<open>(50, 50)\<close> is
  placed, in IEEE arithmetic, at 300 and 200, each less half the point size.
\<close>

theorem mapper_follows_formula:
  "canvas pv = Some objs \<Longrightarrow>
   (\<exists>pv'. UpdateCanvas rd pv = Inr pv' \<and>
      pointObjects pv' =
        map (\<lambda>p. Circle (PointColor (config pv))
                   (toCanvas_spec rd p (domain_of (config pv)) (surface_of (config pv))
                      (PointSize (config pv)))
                   (PointSize (config pv), PointSize (config pv)))
          (points pv)) \<and>
   (MinX (config pv) = Fin 0 \<and> MaxX (config pv) = Fin 100 \<and>
    MinY (config pv) = Fin 0 \<and> MaxY (config pv) = Fin 100 \<and>
    CanvasWidth (config pv) = Fin 600 \<and> CanvasHeight (config pv) = Fin 400 \<and>
    points pv = [\<lparr>X = Fin 50, Y = Fin 50\<rparr>] \<longrightarrow>
    (\<exists>pv'. UpdateCanvas ieee pv = Inr pv' \<and>
       pointObjects pv' =
         [Circle (PointColor (config pv))
            (fsub (round32 ieee) (Fin 300) (fdiv (round32 ieee) (PointSize (config pv)) (Fin 2)),
             fsub (round32 ieee) (Fin 200) (fdiv (round32 ieee) (PointSize (config pv)) (Fin 2)))
            (PointSize (config pv), PointSize (config pv))]))"
proof (intro conjI impI)
  assume "canvas pv = Some objs"
  then show "\<exists>pv'. UpdateCanvas rd pv = Inr pv' \<and>
      pointObjects pv' =
        map (\<lambda>p. Circle (PointColor (config pv))
                   (toCanvas_spec rd p (domain_of (config pv)) (surface_of (config pv))
                      (PointSize (config pv)))
                   (PointSize (config pv), PointSize (config pv)))
          (points pv)"
    by (simp add: UpdateCanvas_closed point_circle_spec)
next
  assume c: "canvas pv = Some objs"
  assume "MinX (config pv) = Fin 0 \<and> MaxX (config pv) = Fin 100 \<and>
    MinY (config pv) = Fin 0 \<and> MaxY (config pv) = Fin 100 \<and>
    CanvasWidth (config pv) = Fin 600 \<and> CanvasHeight (config pv) = Fin 400 \<and>
    points pv = [\<lparr>X = Fin 50, Y = Fin 50\<rparr>]"
  then show "\<exists>pv'. UpdateCanvas ieee pv = Inr pv' \<and>
       pointObjects pv' =
         [Circle (PointColor (config pv))
            (fsub (round32 ieee) (Fin 300) (fdiv (round32 ieee) (PointSize (config pv)) (Fin 2)),
             fsub (round32 ieee) (Fin 200) (fdiv (round32 ieee) (PointSize (config pv)) (Fin 2)))
            (PointSize (config pv), PointSize (config pv))]"
    by (simp add: UpdateCanvas_closed [OF c] point_circle_def scaleX_def scaleY_def
        padding_def fsub_def Let_def round_ieee round32_40 round32_560 round32_360
        round64_100 round32_100 round32_scale_560_100 round32_scale_360_100
        round64_50 round32_50 round32_50_times_scaleX round32_50_times_scaleY
        round32_300 round32_200)
qed

theorem mapper_follows_formula_witness:
  "canvas (started\<lparr>points := [\<lparr>X = Fin 50, Y = Fin 50\<rparr>]\<rparr>) = Some [] \<and>
   (\<exists>pv'. UpdateCanvas ieee (started\<lparr>points := [\<lparr>X = Fin 50, Y = Fin 50\<rparr>]\<rparr>) = Inr pv' \<and>
      pointObjects pv' = [Circle (RGBA 70 130 255 255) (Fin 297, Fin 197) (Fin 6, Fin 6)])"
  using mapper_follows_formula [of "started\<lparr>points := [\<lparr>X = Fin 50, Y = Fin 50\<rparr>]\<rparr>" "[]" ieee]
  by (auto simp: config_started canvas_started fsub_def round_ieee round32_3 round32_297
      round32_197)

section \<open>A zero-extent axis at the mapper\<close>

text \<open>
  Claim C7, as the specification has it: when a domain with a zero-extent axis reaches
  the mapper, it fails with \<^verbatim>\<open>DegenerateDomain\<close> or draws nothing. The program has no such
  test. With \<open>minX = maxX = 0\<close> on the default canvas and the point \<open>(0, 50)\<close>, which is
  what the generator produces under that domain, \<^verbatim>\<open>UpdateCanvas\<close> succeeds and draws the
  background, the border and a circle; the scale factor is \<open>560 / 0 = +Inf\<close> and the
  circle's canvas X is \<open>0 * +Inf = NaN\<close>.
\<close>

theorem zero_width_still_draws_example:
  "UpdateCanvas ieee
     (started\<lparr>config := (config started)\<lparr>MaxX := Fin 0\<rparr>, points := [\<lparr>X = Fin 0, Y = Fin 50\<rparr>]\<rparr>) =
   Inr (started\<lparr>config := (config started)\<lparr>MaxX := Fin 0\<rparr>,
                points := [\<lparr>X = Fin 0, Y = Fin 50\<rparr>],
                canvas := Some
                  [Rectangle (RGBA 248 249 250 255) None (Fin 0) (Fin 600, Fin 400),
                   Rectangle Transparent (Some (RGBA 200 200 200 255)) (Fin 2) (Fin 600, Fin 400),
                   Circle (RGBA 70 130 255 255) (NaN, Fin 197) (Fin 6, Fin 6)],
                pointObjects := [Circle (RGBA 70 130 255 255) (NaN, Fin 197) (Fin 6, Fin 6)]\<rparr>)"
  by (simp add: UpdateCanvas_def started_def NewPointVisualizer_def point_circle_def scaleX_def
      scaleY_def padding_def fsub_def Let_def round_ieee round32_40 round32_560 round32_360
      round64_100 round32_100 round32_scale_360_100 round64_50 round32_50
      round32_50_times_scaleY round32_200 round32_3 round32_197)

text \<open>
  Claim C7, amended: the mapper does not test the domain and has no
  \<^verbatim>\<open>DegenerateDomain\<close> failure. Whenever the container exists, \<^verbatim>\<open>UpdateCanvas\<close> succeeds
  for every domain and draws the background, the border and one circle per point,
  whatever the rounding. On the program's canvas of 600 by 400, in IEEE arithmetic, when
  \<^verbatim>\<open>MinX\<close> and \<^verbatim>\<open>MaxX\<close> are the same finite number, \<^verbatim>\<open>scaleX\<close> is infinite and every point
  with X equal to \<^verbatim>\<open>MinX\<close> is drawn at canvas X NaN; the same holds for Y.
\<close>

theorem zero_extent_still_draws:
  "canvas pv = Some objs \<Longrightarrow>
   (\<exists>pv'. UpdateCanvas rd pv = Inr pv' \<and>
      config pv' = config pv \<and> points pv' = points pv \<and>
      length (pointObjects pv') = length (points pv) \<and>
      canvas pv' = Some
        (Rectangle (RGBA 248 249 250 255) None (Fin 0)
           (CanvasWidth (config pv), CanvasHeight (config pv)) #
         Rectangle Transparent (Some (RGBA 200 200 200 255)) (Fin 2)
           (CanvasWidth (config pv), CanvasHeight (config pv)) #
         pointObjects pv')) \<and>
   (\<exists>pv'. UpdateCanvas ieee pv = Inr pv' \<and>
      (MinX (config pv) = Fin a \<and> MaxX (config pv) = Fin a \<and>
       CanvasWidth (config pv) = Fin 600 \<longrightarrow>
         scaleX ieee (config pv) \<in> {PInf, NInf} \<and>
         (\<forall>i < length (points pv). X (points pv ! i) = Fin a \<longrightarrow>
            (\<exists>cy. pointObjects pv' ! i =
               Circle (PointColor (config pv)) (NaN, cy)
                 (PointSize (config pv), PointSize (config pv))))) \<and>
      (MinY (config pv) = Fin b \<and> MaxY (config pv) = Fin b \<and>
       CanvasHeight (config pv) = Fin 400 \<longrightarrow>
         scaleY ieee (config pv) \<in> {PInf, NInf} \<and>
         (\<forall>i < length (points pv). Y (points pv ! i) = Fin b \<longrightarrow>
            (\<exists>cx. pointObjects pv' ! i =
               Circle (PointColor (config pv)) (cx, NaN)
                 (PointSize (config pv), PointSize (config pv))))))"
  by (simp add: UpdateCanvas_closed scaleX_zero_width scaleY_zero_height
      point_circle_zero_width point_circle_zero_height)

theorem zero_extent_still_draws_witness:
  "canvas (started\<lparr>config := (config started)\<lparr>MinX := Fin 7, MaxX := Fin 7\<rparr>,
                   points := [\<lparr>X = Fin 7, Y = Fin 50\<rparr>]\<rparr>) = Some [] \<and>
   (\<exists>pv'. UpdateCanvas ieee (started\<lparr>config := (config started)\<lparr>MinX := Fin 7, MaxX := Fin 7\<rparr>,
                                    points := [\<lparr>X = Fin 7, Y = Fin 50\<rparr>]\<rparr>) = Inr pv' \<and>
      length (pointObjects pv') = 1 \<and>
      scaleX ieee ((config started)\<lparr>MinX := Fin 7, MaxX := Fin 7\<rparr>) \<in> {PInf, NInf} \<and>
      (\<exists>cy. pointObjects pv' ! 0 = Circle (RGBA 70 130 255 255) (NaN, cy) (Fin 6, Fin 6)))"
  using zero_extent_still_draws
    [of "started\<lparr>config := (config started)\<lparr>MinX := Fin 7, MaxX := Fin 7\<rparr>,
                 points := [\<lparr>X = Fin 7, Y = Fin 50\<rparr>]\<rparr>" "[]" ieee 7 0]
  by (auto simp: config_started canvas_started)

section \<open>The generate cycle and the configuration\<close>

text \<open>
  Claim C6, as the specification has it: a cycle either fully succeeds or is rejected
  before it mutates any configuration field, so the four range fields are never updated
  in part. The handler tests each entry alone. With the texts \<^verbatim>\<open>5\<close>, \<^verbatim>\<open>abc\<close>, \<^verbatim>\<open>0\<close> and
  \<^verbatim>\<open>100\<close> in the four entries (the parser below agrees with \<^verbatim>\<open>strconv.ParseFloat\<close> on
  them) and the default domain from 0 to 100, the cycle is not rejected and leaves
  \<^verbatim>\<open>MinX\<close> updated to 5 and \<^verbatim>\<open>MaxX\<close> at its prior 100.
\<close>

theorem partial_update_example:
  "config (state_after
     (generateBtn ieee roomy (map_of [(''5'', Fin 5), (''0'', Fin 0), (''100'', Fin 100)])
        \<lparr>xMinEntry = ''5'', xMaxEntry = ''abc'', yMinEntry = ''0'', yMaxEntry = ''100''\<rparr>
        halves started)) =
     \<lparr>NumPoints = 30, MinX = Fin 5, MaxX = Fin 100, MinY = Fin 0, MaxY = Fin 100,
      CanvasWidth = Fin 600, CanvasHeight = Fin 400, PointSize = Fin 6,
      PointColor = RGBA 70 130 255 255\<rparr> \<and>
   \<not> isl (generateBtn ieee roomy (map_of [(''5'', Fin 5), (''0'', Fin 0), (''100'', Fin 100)])
        \<lparr>xMinEntry = ''5'', xMaxEntry = ''abc'', yMinEntry = ''0'', yMaxEntry = ''100''\<rparr>
        halves started)"
proof -
  have "makeslice roomy (NumPoints (config started)) = None" and "canvas started = Some []"
    by (simp_all add: config_started canvas_started makeslice_roomy)
  from generateBtn_closed [OF this,
      of ieee "map_of [(''5'', Fin 5), (''0'', Fin 0), (''100'', Fin 100)]"
         "\<lparr>xMinEntry = ''5'', xMaxEntry = ''abc'', yMinEntry = ''0'', yMaxEntry = ''100''\<rparr>"
         halves]
  show ?thesis
    by (auto simp: config_state_after_generateBtn update_config_fields config_started)
qed

text \<open>
  Claim C6, amended: a generate cycle is not atomic over the configuration. Each of the
  four range fields is overwritten exactly when its own entry parses and keeps its prior
  value otherwise, whatever the other three entries hold; the other fields of the
  configuration are not changed. This is the configuration the cycle leaves behind
  however it ends: the fields are written before generation and rendering start, and
  neither changes them, also when one of them fails.
\<close>

theorem cycle_updates_fields_independently:
  "config (state_after (generateBtn rd rt PF es s pv)) =
     (config pv)
       \<lparr>MinX := (case PF (xMinEntry es) of Some val \<Rightarrow> val | None \<Rightarrow> MinX (config pv)),
        MaxX := (case PF (xMaxEntry es) of Some val \<Rightarrow> val | None \<Rightarrow> MaxX (config pv)),
        MinY := (case PF (yMinEntry es) of Some val \<Rightarrow> val | None \<Rightarrow> MinY (config pv)),
        MaxY := (case PF (yMaxEntry es) of Some val \<Rightarrow> val | None \<Rightarrow> MaxY (config pv))\<rparr>"
  by (simp only: config_state_after_generateBtn update_config_fields)

theorem cycle_updates_fields_independently_witness:
  "config (state_after
     (generateBtn ieee roomy (map_of [(''5'', Fin 5), (''0'', Fin 0), (''100'', Fin 100)])
        \<lparr>xMinEntry = ''abc'', xMaxEntry = ''5'', yMinEntry = ''x'', yMaxEntry = ''100''\<rparr>
        halves started)) =
     (config started)\<lparr>MaxX := Fin 5\<rparr>"
  using cycle_updates_fields_independently
    [of ieee roomy "map_of [(''5'', Fin 5), (''0'', Fin 0), (''100'', Fin 100)]"
        "\<lparr>xMinEntry = ''abc'', xMaxEntry = ''5'', yMinEntry = ''x'', yMaxEntry = ''100''\<rparr>"
        halves started]
  by (simp add: config_started)

section \<open>The inverted Y axis\<close>

text \<open>
  Claim C5, as stated: two points with equal x and \<open>y1 < y2\<close> are mapped to \<open>py1 > py2\<close>.
  On the default domain and canvas the points \<open>(50, 50)\<close> and \<open>(50, 50 + 1 / 2 ^ 40)\<close>
  differ in y, but the conversion \<^verbatim>\<open>float32(MaxY - y)\<close> rounds both differences to 50, and
  both circles get the canvas Y 197.
\<close>

theorem close_points_coincide:
  "UpdateCanvas ieee
     (started\<lparr>points := [\<lparr>X = Fin 50, Y = Fin 50\<rparr>, \<lparr>X = Fin 50, Y = Fin (50 + 1 / 2 ^ 40)\<rparr>]\<rparr>) =
   Inr (started\<lparr>points := [\<lparr>X = Fin 50, Y = Fin 50\<rparr>, \<lparr>X = Fin 50, Y = Fin (50 + 1 / 2 ^ 40)\<rparr>],
                canvas := Some
                  [Rectangle (RGBA 248 249 250 255) None (Fin 0) (Fin 600, Fin 400),
                   Rectangle Transparent (Some (RGBA 200 200 200 255)) (Fin 2) (Fin 600, Fin 400),
                   Circle (RGBA 70 130 255 255) (Fin 297, Fin 197) (Fin 6, Fin 6),
                   Circle (RGBA 70 130 255 255) (Fin 297, Fin 197) (Fin 6, Fin 6)],
                pointObjects :=
                  [Circle (RGBA 70 130 255 255) (Fin 297, Fin 197) (Fin 6, Fin 6),
                   Circle (RGBA 70 130 255 255) (Fin 297, Fin 197) (Fin 6, Fin 6)]\<rparr>)"
  by (simp add: UpdateCanvas_def started_def NewPointVisualizer_def point_circle_def scaleX_def
      scaleY_def padding_def fsub_def Let_def round_ieee round32_40 round32_560 round32_360
      round64_100 round32_100 round32_scale_560_100 round32_scale_360_100
      round64_50 round32_50 round32_50_times_scaleX round32_50_times_scaleY
      round32_300 round32_200 round32_3 round32_297 round32_197
      round64_below_50 round32_below_50)

text \<open>
  Claim C5, amended: when \<^verbatim>\<open>MaxY\<close> is finite, \<^verbatim>\<open>scaleY\<close> is a positive finite number and
  the point size is a finite \<^verbatim>\<open>float32\<close> number, two points with the same x and finite
  \<open>y1 < y2\<close> are drawn, under IEEE rounding, at the same canvas X and at canvas Y values
  with \<open>py1 \<ge> py2\<close> in the order of the \<^verbatim>\<open>float32\<close> values: neither is NaN and the order
  is never reversed, but the two can be equal.
\<close>

theorem y_mapping_antitone:
  assumes "canvas pv = Some objs"
    and "MaxY (config pv) = Fin b'"
    and "scaleY ieee (config pv) = Fin sy" "0 < sy"
    and "PointSize (config pv) = Fin d" "is_float32 d"
    and "points pv = [p1, p2]"
    and "X p1 = X p2" "Y p1 = Fin y1" "Y p2 = Fin y2" "y1 < y2"
  shows "\<exists>pv' cx cy1 cy2. UpdateCanvas ieee pv = Inr pv' \<and>
     pointObjects pv' =
       [Circle (PointColor (config pv)) (cx, cy1) (Fin d, Fin d),
        Circle (PointColor (config pv)) (cx, cy2) (Fin d, Fin d)] \<and>
     fle cy2 cy1"
proof -
  let ?c = "config pv"
  let ?pc = "point_circle ieee ?c (scaleX ieee ?c) (Fin sy)"
  let ?half = "fdiv (round32 ieee) (PointSize ?c) (Fin 2)"
  let ?cx = "\<lambda>p. fsub (round32 ieee)
      (fadd (round32 ieee) padding
         (fmul (round32 ieee) (convert (round32 ieee) (fsub (round64 ieee) (X p) (MinX ?c)))
            (scaleX ieee ?c))) ?half"
  let ?cy = "\<lambda>p. fsub (round32 ieee)
      (fadd (round32 ieee) padding
         (fmul (round32 ieee) (convert (round32 ieee) (fsub (round64 ieee) (MaxY ?c) (Y p)))
            (Fin sy))) ?half"
  have c: "?pc p = Circle (PointColor ?c) (?cx p, ?cy p) (Fin d, Fin d)" for p
    by (simp add: point_circle_def Let_def assms(5))
  have x: "?cx p1 = ?cx p2"
    by (simp only: assms(8))
  have n1: "?cy p1 \<noteq> NaN"
    using assms(2,9,4,5,6) c by (rule canvasY_not_NaN)
  have n2: "?cy p2 \<noteq> NaN"
    using assms(2,10,4,5,6) c by (rule canvasY_not_NaN)
  have le: "y1 \<le> y2"
    using assms(11) by simp
  have s: "Fin sy = NaN \<or> fle (Fin 0) (Fin sy)"
    using assms(4) by simp
  have "fle (?cy p2) (?cy p1)"
    using assms(2,9,10) le s c c n1 n2 by (rule canvasY_antitone)
  then show ?thesis
    using UpdateCanvas_closed [OF assms(1)] assms(7) c x by (simp add: assms(3))
qed

theorem y_mapping_antitone_witness:
  "canvas (started\<lparr>points := [\<lparr>X = Fin 50, Y = Fin 50\<rparr>, \<lparr>X = Fin 50, Y = Fin 100\<rparr>]\<rparr>) = Some [] \<and>
   scaleY ieee (config started) = Fin (7549747 / 2097152) \<and> is_float32 6 \<and> (50::real) < 100 \<and>
   (\<exists>pv'.
      UpdateCanvas ieee (started\<lparr>points := [\<lparr>X = Fin 50, Y = Fin 50\<rparr>, \<lparr>X = Fin 50, Y = Fin 100\<rparr>]\<rparr>) =
        Inr pv' \<and>
      pointObjects pv' =
        [Circle (RGBA 70 130 255 255) (Fin 297, Fin 197) (Fin 6, Fin 6),
         Circle (RGBA 70 130 255 255) (Fin 297, Fin 17) (Fin 6, Fin 6)] \<and>
      fle (Fin 17) (Fin 197))"
  using y_mapping_antitone
    [of "started\<lparr>points := [\<lparr>X = Fin 50, Y = Fin 50\<rparr>, \<lparr>X = Fin 50, Y = Fin 100\<rparr>]\<rparr>" "[]"
        100 "7549747 / 2097152" 6 "\<lparr>X = Fin 50, Y = Fin 50\<rparr>" "\<lparr>X = Fin 50, Y = Fin 100\<rparr>" 50 100]
  by (simp add: config_started canvas_started is_float32_def UpdateCanvas_def point_circle_def
      scaleX_def scaleY_def padding_def fsub_def Let_def round_ieee round32_40 round32_560
      round32_360 round64_100 round32_100 round32_scale_560_100 round32_scale_360_100
      round64_50 round32_50 round32_50_times_scaleX round32_50_times_scaleY
      round32_300 round32_200 round32_3 round32_297 round32_197 round32_6 round32_20 round32_17)

section \<open>The corners of the domain\<close>

text \<open>
  Claim C8, as stated: for every valid domain, each corner of the domain is mapped into
  the padded rectangle, the half point size left aside. With the domain from 0 to 273 in
  X on the default canvas, \<^verbatim>\<open>scaleX\<close> is \<open>560 / 273\<close> rounded up, and the corner
  \<open>(273, 0)\<close> gets the canvas X \<open>580 + 1 / 16384\<close>, beyond \<open>600 - 20\<close> (the point size is 0
  here, so that no offset is taken off).
\<close>

theorem rounded_corner_outside:
  "UpdateCanvas ieee
     (started\<lparr>config := (config started)\<lparr>MaxX := Fin 273, PointSize := Fin 0\<rparr>,
              points := [\<lparr>X = Fin 273, Y = Fin 0\<rparr>]\<rparr>) =
   Inr (started\<lparr>config := (config started)\<lparr>MaxX := Fin 273, PointSize := Fin 0\<rparr>,
                points := [\<lparr>X = Fin 273, Y = Fin 0\<rparr>],
                canvas := Some
                  [Rectangle (RGBA 248 249 250 255) None (Fin 0) (Fin 600, Fin 400),
                   Rectangle Transparent (Some (RGBA 200 200 200 255)) (Fin 2) (Fin 600, Fin 400),
                   Circle (RGBA 70 130 255 255) (Fin (580 + 1 / 16384), Fin 380) (Fin 0, Fin 0)],
                pointObjects :=
                  [Circle (RGBA 70 130 255 255) (Fin (580 + 1 / 16384), Fin 380) (Fin 0, Fin 0)]\<rparr>)"
  by (simp add: UpdateCanvas_def started_def NewPointVisualizer_def point_circle_def scaleX_def
      scaleY_def padding_def fsub_def Let_def round_ieee round32_40 round32_560 round32_360
      round64_100 round32_100 round32_scale_360_100 round64_273 round32_273
      round32_scale_560_273 round32_273_times_scale round32_20_plus
      round32_100_times_scaleY round32_380)

text \<open>
  Claim C8, amended: let \<open>nx\<close> be the usable width \<^verbatim>\<open>CanvasWidth - 2*padding\<close> and \<open>ny\<close>
  the usable height \<^verbatim>\<open>CanvasHeight - 2*padding\<close>, as the program computes them, both at
  least 4, let the bounds of the domain be finite, \<^verbatim>\<open>scaleX\<close> and \<^verbatim>\<open>scaleY\<close> positive
  finite numbers, and the point size a finite \<^verbatim>\<open>float32\<close> number. Then each of the four
  corners of the domain is drawn, under IEEE rounding, at a position between \<open>(20, 20)\<close> and
  \<open>(20 + nx + nx / 2 ^ 24, 20 + ny + ny / 2 ^ 24)\<close>, the latter rounded as the program
  rounds, each less half the point size. On the canvas of the program, 600 by 400, the
  upper corner is \<open>(580 + 1 / 16384, 380 + 1 / 32768)\<close>: a corner of the domain can lie
  beyond the padded rectangle by one unit in the last place, and not by more.
\<close>

theorem corners_inside_padding:
  assumes "canvas pv = Some objs"
    and "MinX (config pv) = Fin a" "MaxX (config pv) = Fin b"
    and "MinY (config pv) = Fin a'" "MaxY (config pv) = Fin b'"
    and "fsub (round32 ieee) (CanvasWidth (config pv)) (fmul (round32 ieee) (Fin 2) padding) = Fin nx"
    and "4 \<le> nx"
    and "fsub (round32 ieee) (CanvasHeight (config pv)) (fmul (round32 ieee) (Fin 2) padding) = Fin ny"
    and "4 \<le> ny"
    and "scaleX ieee (config pv) = Fin sx" "0 < sx"
    and "scaleY ieee (config pv) = Fin sy" "0 < sy"
    and "PointSize (config pv) = Fin d" "is_float32 d"
    and "points pv = [\<lparr>X = Fin a, Y = Fin a'\<rparr>, \<lparr>X = Fin a, Y = Fin b'\<rparr>,
                      \<lparr>X = Fin b, Y = Fin a'\<rparr>, \<lparr>X = Fin b, Y = Fin b'\<rparr>]"
  shows "\<exists>pv'. UpdateCanvas ieee pv = Inr pv' \<and>
     length (pointObjects pv') = 4 \<and>
     (\<forall>obj \<in> set (pointObjects pv').
        \<exists>cx cy. obj = Circle (PointColor (config pv)) (cx, cy) (Fin d, Fin d) \<and>
          fle (fsub (round32 ieee) (Fin 20) (fdiv (round32 ieee) (Fin d) (Fin 2))) cx \<and>
          fle cx (fsub (round32 ieee)
                    (fadd (round32 ieee) (Fin 20) (round32 ieee (nx + nx / 2 ^ 24)))
                    (fdiv (round32 ieee) (Fin d) (Fin 2))) \<and>
          fle (fsub (round32 ieee) (Fin 20) (fdiv (round32 ieee) (Fin d) (Fin 2))) cy \<and>
          fle cy (fsub (round32 ieee)
                    (fadd (round32 ieee) (Fin 20) (round32 ieee (ny + ny / 2 ^ 24)))
                    (fdiv (round32 ieee) (Fin d) (Fin 2))))"
proof -
  note cc = corner_circle [OF assms(2,3,6,7,10,11) _ assms(4,5,8,9,12,13) _ assms(14,15)]
  show ?thesis
    using UpdateCanvas_closed [OF assms(1)] assms(16)
      cc [of a a'] cc [of a b'] cc [of b a'] cc [of b b']
    by auto
qed

theorem corners_inside_padding_witness:
  "canvas (started\<lparr>points := [\<lparr>X = Fin 0, Y = Fin 0\<rparr>, \<lparr>X = Fin 0, Y = Fin 100\<rparr>,
                                \<lparr>X = Fin 100, Y = Fin 0\<rparr>, \<lparr>X = Fin 100, Y = Fin 100\<rparr>]\<rparr>) = Some [] \<and>
   fsub (round32 ieee) (CanvasWidth (config started)) (fmul (round32 ieee) (Fin 2) padding) = Fin 560 \<and>
   fsub (round32 ieee) (CanvasHeight (config started)) (fmul (round32 ieee) (Fin 2) padding) = Fin 360 \<and>
   scaleX ieee (config started) = Fin (11744051 / 2097152) \<and>
   scaleY ieee (config started) = Fin (7549747 / 2097152) \<and> is_float32 6 \<and>
   (\<exists>pv'. UpdateCanvas ieee (started\<lparr>points := [\<lparr>X = Fin 0, Y = Fin 0\<rparr>, \<lparr>X = Fin 0, Y = Fin 100\<rparr>,
                                \<lparr>X = Fin 100, Y = Fin 0\<rparr>, \<lparr>X = Fin 100, Y = Fin 100\<rparr>]\<rparr>) = Inr pv' \<and>
      length (pointObjects pv') = 4 \<and>
      list_all (\<lambda>obj. \<exists>cx cy. obj = Circle (RGBA 70 130 255 255) (cx, cy) (Fin 6, Fin 6) \<and>
          fle (Fin 17) cx \<and> fle cx (Fin (577 + 1 / 16384)) \<and>
          fle (Fin 17) cy \<and> fle cy (Fin (377 + 1 / 32768)))
        (pointObjects pv'))"
  using corners_inside_padding
    [of "started\<lparr>points := [\<lparr>X = Fin 0, Y = Fin 0\<rparr>, \<lparr>X = Fin 0, Y = Fin 100\<rparr>,
                              \<lparr>X = Fin 100, Y = Fin 0\<rparr>, \<lparr>X = Fin 100, Y = Fin 100\<rparr>]\<rparr>"
        "[]" 0 100 0 100 560 360 "11744051 / 2097152" "7549747 / 2097152" 6]
  by (simp add: config_started canvas_started list_all_iff scaleX_def scaleY_def padding_def
      fsub_def round_ieee is_float32_def round32_40 round32_560 round32_360 round64_100
      round32_100 round32_scale_560_100 round32_scale_360_100 round32_3 round32_6 round32_17
      round32_560_slack round32_360_slack round32_20_plus round32_380_plus_ulp
      round32_577_plus_ulp round32_377_plus_ulp)

end
